theory Spec2Isabelle
  imports Complex_Main "HOL-Library.Sublist" "HOL-Library.AList" "HOL-Library.Word"
begin

section \<open>Data model (src/github_cdn_package/src/types.ts)\<close>

type_synonym byte = "8 word"
type_synonym bytes = "byte list"

text \<open>A Git object name. The store below hands out the position of the object.\<close>
type_synonym sha = nat

text \<open>CDNConfig, after the constructor has filled in branch and userAgent.\<close>
record cdn_config =
  token :: string
  owner :: string
  repo :: string
  branch :: string
  userAgent :: string

record cdn_links =
  l_cdn :: string
  l_fastly :: string
  l_raw :: string
  l_origin :: string

text \<open>CDNAsset. A registry entry read back from JSON may lack its links
  (list() fills them in), hence the option.\<close>
record cdn_asset =
  a_id :: string
  a_name :: string
  a_size :: nat
  a_type :: string
  a_path :: string
  a_uploadedAt :: string
  a_links :: "cdn_links option"

record cdn_manifest =
  m_id :: string
  m_fileName :: string
  m_uniqueId :: string
  m_totalChunks :: nat
  m_chunkSize :: nat
  m_totalSize :: nat
  m_mimeType :: string
  m_pathPrefix :: string
  m_uploadedAt :: string
  m_optimized :: bool

text \<open>CDNProgress without its percentage, which is a floating-point quotient
  (NaN for an empty buffer) that nothing below reads.\<close>
record cdn_progress =
  p_currentChunk :: nat
  p_totalChunks :: nat
  p_loaded :: nat
  p_total :: nat
  p_stage :: string

datatype log_type = Info | Success | ErrorLog | Warning | Process

text \<open>CDNLog: what the onUpdate callback receives.\<close>
datatype cdn_log =
    Log string log_type "cdn_progress option"
  | Done string "cdn_asset option"

section \<open>Chunker (upload, lines 353-355 and 384 of the SDK)\<close>

definition CHUNK_SIZE :: nat where
  "CHUNK_SIZE = 5 * 1024 * 1024"

text \<open>ArrayBuffer.slice(begin, end) for non-negative arguments: both are clamped to
  the length, and an end before the begin gives the empty buffer.\<close>
definition slice :: "bytes \<Rightarrow> nat \<Rightarrow> nat \<Rightarrow> bytes" where
  "slice buffer b e = take (e - b) (drop b buffer)"

text \<open>Math.ceil(totalSize / CHUNK_SIZE). The quotient is a double; for every
  byteLength an ArrayBuffer can have it is far enough from the next integer that the
  ceiling is the exact one.\<close>
definition totalChunks :: "nat \<Rightarrow> nat" where
  "totalChunks totalSize = (totalSize + CHUNK_SIZE - 1) div CHUNK_SIZE"

text \<open>The chunk of loop iteration i (0-based), stored as chunk_(i+1).\<close>
definition chunk :: "bytes \<Rightarrow> nat \<Rightarrow> bytes" where
  "chunk buffer i = slice buffer (i * CHUNK_SIZE) (min ((i + 1) * CHUNK_SIZE) (length buffer))"

definition chunks :: "bytes \<Rightarrow> bytes list" where
  "chunks buffer = map (chunk buffer) [0..<totalChunks (length buffer)]"

text \<open>Number.toString() of a non-negative integer.\<close>
fun dec :: "nat \<Rightarrow> string" where
  "dec n = (if n < 10 then [char_of (48 + n)] else dec (n div 10) @ [char_of (48 + n mod 10)])"

declare dec.simps [simp del]

section \<open>The remote store and the REST client\<close>

text \<open>What a blob holds, seen through the decoding its readers apply
  (base64, then JSON.parse): raw bytes, a manifest document or a registry document.
  JSON.stringify followed by JSON.parse gives back these records unchanged.\<close>
datatype content = Raw bytes | ManifestDoc cdn_manifest | RegistryDoc "cdn_asset list"

record tree_entry =
  e_path :: string
  e_mode :: string
  e_type :: string
  e_sha :: sha

datatype obj = Blob content | Tree "tree_entry list" | Commit string sha "sha list"

datatype error =
    ApiError nat
  | TypeError
  | SyntaxError
  | UnsupportedInput
  | ManifestNotFound
  | NetworkError
  | PlainError

text \<open>The REST calls the SDK makes, by method and path.\<close>
datatype endpoint =
    GetRef | GetTree | GetBlob | GetContents | PostBlob | PostTree | PostCommit | PatchRef

text \<open>The world a pipeline runs in: the objects of the repository (an object's name
  is its position), the head of the configured branch, the REST requests sent so far
  (each with whether it was answered), which requests fail (by their number), and what
  onUpdate has received.\<close>
record world =
  objects :: "obj list"
  head :: "sha option"
  history :: "(endpoint \<times> bool) list"
  fails :: "nat \<Rightarrow> bool"
  updates :: "cdn_log list"

type_synonym 'a action = "world \<Rightarrow> (error + 'a) \<times> world"

definition ret :: "'a \<Rightarrow> 'a action" where
  "ret x w = (Inr x, w)"

definition throw :: "error \<Rightarrow> 'a action" where
  "throw e w = (Inl e, w)"

text \<open>const x = await m; f x: a rejection of m leaves the function at once.\<close>
definition await :: "'a action \<Rightarrow> ('a \<Rightarrow> 'b action) \<Rightarrow> 'b action" where
  "await m f w = (case m w of (Inl e, w') \<Rightarrow> (Inl e, w') | (Inr x, w') \<Rightarrow> f x w')"

text \<open>try { m } catch (e) { h e }.\<close>
definition try_catch :: "'a action \<Rightarrow> (error \<Rightarrow> 'a action) \<Rightarrow> 'a action" where
  "try_catch m h w = (case m w of (Inl e, w') \<Rightarrow> h e w' | (Inr x, w') \<Rightarrow> (Inr x, w'))"

definition lookup :: "world \<Rightarrow> sha \<Rightarrow> obj option" where
  "lookup w s = (if s < length (objects w) then Some (objects w ! s) else None)"

definition store_obj :: "obj \<Rightarrow> sha action" where
  "store_obj ob w = (Inr (length (objects w)), w\<lparr>objects := objects w @ [ob]\<rparr>)"

text \<open>The directories above a path: every prefix that ends before a slash.\<close>
definition dirs_of :: "string \<Rightarrow> string list" where
  "dirs_of p = map (\<lambda>k. take k p) (filter (\<lambda>k. p ! k = CHR ''/'') [0..<length p])"

text \<open>Modelled from the spec: the ContentObjectStore collaborator of section 6
  (getBranchHead, createObject, getObject, getTree recursive, createTree, createCommit,
  updateRef), which is the GitHub REST service and not code of this repository.
  A tree object keeps the blob entries of the whole snapshot by full path. The recursive
  listing adds one entry of type tree for every directory above a blob; sub-trees are
  not objects of their own here, so such an entry carries the name of the tree it is
  listed in, which is no blob.\<close>
definition tree_of :: "world \<Rightarrow> sha \<Rightarrow> (sha \<times> tree_entry list) option" where
  "tree_of w s =
     (case lookup w s of
        Some (Commit msg t ps) \<Rightarrow>
          (case lookup w t of Some (Tree es) \<Rightarrow> Some (t, es) | _ \<Rightarrow> None)
      | Some (Tree es) \<Rightarrow> Some (s, es)
      | _ \<Rightarrow> None)"

definition listing :: "world \<Rightarrow> sha \<Rightarrow> tree_entry list option" where
  "listing w s =
     (case tree_of w s of
        None \<Rightarrow> None
      | Some (t, es) \<Rightarrow>
          Some (es @ map (\<lambda>d. \<lparr>e_path = d, e_mode = ''040000'', e_type = ''tree'', e_sha = t\<rparr>)
                         (remdups (concat (map (\<lambda>e. dirs_of (e_path e)) es)))))"

text \<open>GET /git/refs/heads/branch: ref.object.sha, 404 when the branch is absent.\<close>
definition srv_get_ref :: "sha action" where
  "srv_get_ref w = (case head w of None \<Rightarrow> (Inl (ApiError 404), w) | Some h \<Rightarrow> (Inr h, w))"

text \<open>GET /git/trees/sha?recursive=1; the name of a commit stands for its tree.\<close>
definition srv_get_tree :: "sha \<Rightarrow> (tree_entry list) action" where
  "srv_get_tree s w = (case listing w s of None \<Rightarrow> (Inl (ApiError 404), w) | Some l \<Rightarrow> (Inr l, w))"

text \<open>GET /git/blobs/sha.\<close>
definition srv_get_blob :: "sha \<Rightarrow> content action" where
  "srv_get_blob s w = (case lookup w s of Some (Blob c) \<Rightarrow> (Inr c, w) | _ \<Rightarrow> (Inl (ApiError 404), w))"

text \<open>GET /contents/path: the file at that path in the head of the branch.\<close>
definition srv_get_contents :: "string \<Rightarrow> content action" where
  "srv_get_contents p w =
     (case head w of
        None \<Rightarrow> (Inl (ApiError 404), w)
      | Some h \<Rightarrow>
          (case listing w h of
             None \<Rightarrow> (Inl (ApiError 404), w)
           | Some l \<Rightarrow>
               (case find (\<lambda>e. e_path e = p \<and> e_type e = ''blob'') l of
                  None \<Rightarrow> (Inl (ApiError 404), w)
                | Some e \<Rightarrow> srv_get_blob (e_sha e) w)))"

text \<open>POST /git/blobs.\<close>
definition srv_post_blob :: "content \<Rightarrow> sha action" where
  "srv_post_blob c = store_obj (Blob c)"

text \<open>POST /git/trees: without base_tree the new tree holds the given entries only;
  with it, the entries of the base whose path is not given again, then the given ones.\<close>
definition srv_post_tree :: "sha option \<Rightarrow> tree_entry list \<Rightarrow> sha action" where
  "srv_post_tree base items w =
     (case base of
        None \<Rightarrow> store_obj (Tree items) w
      | Some b \<Rightarrow>
          (case tree_of w b of
             None \<Rightarrow> (Inl (ApiError 422), w)
           | Some (t, es) \<Rightarrow>
               store_obj (Tree (filter (\<lambda>e. e_path e \<notin> set (map e_path items)) es @ items)) w))"

definition is_tree :: "world \<Rightarrow> sha \<Rightarrow> bool" where
  "is_tree w s = (case lookup w s of Some (Tree es) \<Rightarrow> True | _ \<Rightarrow> False)"

definition is_commit :: "world \<Rightarrow> sha \<Rightarrow> bool" where
  "is_commit w s = (case lookup w s of Some (Commit msg t ps) \<Rightarrow> True | _ \<Rightarrow> False)"

text \<open>POST /git/commits.\<close>
definition srv_post_commit :: "string \<Rightarrow> sha \<Rightarrow> sha list \<Rightarrow> sha action" where
  "srv_post_commit msg t ps w =
     (if is_tree w t \<and> list_all (is_commit w) ps then store_obj (Commit msg t ps) w
      else (Inl (ApiError 422), w))"

text \<open>PATCH /git/refs/heads/branch with a sha and no force flag. As section 5 has it,
  the store rejects an update whose claimed parent is stale: the new commit must name
  the current head among its parents.\<close>
definition srv_patch_ref :: "sha \<Rightarrow> unit action" where
  "srv_patch_ref s w =
     (case lookup w s of
        Some (Commit msg t ps) \<Rightarrow>
          (case head w of
             None \<Rightarrow> (Inl (ApiError 422), w)
           | Some h \<Rightarrow> if h \<in> set ps then (Inr (), w\<lparr>head := Some s\<rparr>) else (Inl (ApiError 422), w))
      | _ \<Rightarrow> (Inl (ApiError 422), w))"

text \<open>request (lines 236-251): one REST call. A call that fails (transport, rate
  limit, server error) throws and leaves the repository as it was.\<close>
definition request :: "endpoint \<Rightarrow> 'a action \<Rightarrow> 'a action" where
  "request ep serve w =
     (let failed = fails w (length (history w));
          w' = w\<lparr>history := history w @ [(ep, \<not> failed)]\<rparr>
      in if failed then (Inl (ApiError 500), w') else serve w')"

definition emit_log :: "cdn_log \<Rightarrow> unit action" where
  "emit_log l w = (Inr (), w\<lparr>updates := updates w @ [l]\<rparr>)"

text \<open>The emit of delete, fetch and sync: a log line without progress.\<close>
definition emit :: "string \<Rightarrow> log_type \<Rightarrow> unit action" where
  "emit message logType = emit_log (Log message logType None)"

section \<open>resolveLinks and list (lines 256-278)\<close>

definition resolveLinks :: "cdn_config \<Rightarrow> string \<Rightarrow> cdn_links" where
  "resolveLinks cfg path =
     (let base = ''https://cdn.jsdelivr.net/gh/'' @ owner cfg @ ''/'' @ repo cfg @ ''@''
                   @ branch cfg @ ''/'' @ path
      in \<lparr>l_cdn = base @ ''/manifest.json'',
          l_fastly = ''https://fastly.jsdelivr.net/gh/'' @ owner cfg @ ''/'' @ repo cfg @ ''@''
                   @ branch cfg @ ''/'' @ path @ ''/manifest.json'',
          l_raw = ''https://raw.githubusercontent.com/'' @ owner cfg @ ''/'' @ repo cfg @ ''/''
                   @ branch cfg @ ''/'' @ path @ ''/manifest.json'',
          l_origin = ''/api/fetch?file='' @ path\<rparr>)"

text \<open>a.links || this.resolveLinks(a).\<close>
definition inject_links :: "cdn_config \<Rightarrow> cdn_asset \<Rightarrow> cdn_asset" where
  "inject_links cfg a =
     a\<lparr>a_links := Some (case a_links a of Some l \<Rightarrow> l | None \<Rightarrow> resolveLinks cfg (a_path a))\<rparr>"

text \<open>JSON.parse of the registry, then assets.map: bytes that are no JSON raise a
  SyntaxError, a document that is no array a TypeError.\<close>
definition decode_registry :: "content \<Rightarrow> (cdn_asset list) action" where
  "decode_registry c =
     (case c of
        RegistryDoc assets \<Rightarrow> ret assets
      | ManifestDoc m \<Rightarrow> throw TypeError
      | Raw b \<Rightarrow> throw SyntaxError)"

definition list_assets :: "cdn_config \<Rightarrow> (cdn_asset list) action" where
  "list_assets cfg =
     try_catch
       (await (request GetContents (srv_get_contents ''registry.json'')) (\<lambda>res.
        await (decode_registry res) (\<lambda>assets.
        ret (map (inject_links cfg) assets))))
       (\<lambda>e. ret [])"

section \<open>delete (lines 283-326)\<close>

definition blob_item :: "string \<Rightarrow> sha \<Rightarrow> tree_entry" where
  "blob_item p s = \<lparr>e_path = p, e_mode = ''100644'', e_type = ''blob'', e_sha = s\<rparr>"

text \<open>Lines 288-319: everything up to the new commit. String.startsWith is the prefix
  order; Array.find gives undefined when nothing matches, and regNode.sha then raises a
  TypeError.\<close>
definition delete_stage :: "string \<Rightarrow> string \<Rightarrow> sha action" where
  "delete_stage ident folderPath =
     await (emit (''Purging entry: '' @ ident) Warning) (\<lambda>_.
     await (request GetRef srv_get_ref) (\<lambda>headSha.
     await (emit ''Filtering repository tree...'' Info) (\<lambda>_.
     await (request GetTree (srv_get_tree headSha)) (\<lambda>treeData.
     let filtered = filter (\<lambda>i. \<not> prefix folderPath (e_path i)) treeData in
     await (emit ''Patching registry index...'' Info) (\<lambda>_.
     (case find (\<lambda>i. e_path i = ''registry.json'') filtered of
        None \<Rightarrow> throw TypeError
      | Some regNode \<Rightarrow>
     await (request GetBlob (srv_get_blob (e_sha regNode))) (\<lambda>regBlob.
     await (decode_registry regBlob) (\<lambda>registry.
     let registry = filter (\<lambda>a. a_id a \<noteq> ident) registry in
     await (request PostBlob (srv_post_blob (RegistryDoc registry))) (\<lambda>newReg.
     await (emit ''Committing physical scrub...'' Process) (\<lambda>_.
     let finalTree = map (\<lambda>i. if e_path i = ''registry.json''
                                then \<lparr>e_path = e_path i, e_mode = e_mode i, e_type = e_type i, e_sha = newReg\<rparr>
                                else \<lparr>e_path = e_path i, e_mode = e_mode i, e_type = e_type i, e_sha = e_sha i\<rparr>)
                          (filter (\<lambda>i. e_type i = ''blob'') filtered) in
     await (request PostTree (srv_post_tree None finalTree)) (\<lambda>newTree.
     request PostCommit (srv_post_commit (''Scrub: '' @ ident) newTree [headSha]))))))))))))"

text \<open>Lines 321-325: the update of the branch, then the closing events.\<close>
definition delete_publish :: "sha \<Rightarrow> bool action" where
  "delete_publish commit =
     await (request PatchRef (srv_patch_ref commit)) (\<lambda>_.
     await (emit ''Purge verified.'' Success) (\<lambda>_.
     await (emit_log (Done ''Asset scrubbing complete.'' None)) (\<lambda>_.
     ret True)))"

definition delete_asset :: "string \<Rightarrow> string \<Rightarrow> bool action" where
  "delete_asset ident folderPath = await (delete_stage ident folderPath) delete_publish"

section \<open>upload (lines 331-428)\<close>

text \<open>The four shapes of the input: a File (a Blob with a name), a plain Blob, a Node
  Buffer, an object with name, type and an ArrayBuffer; anything else.\<close>
datatype upload_input =
    FileInput string string bytes
  | BlobInput string bytes
  | BufferInput bytes
  | WrappedInput string string bytes
  | OtherInput

text \<open>What upload reads from the clock and the random generator: Date.now(), the
  unique id, and year, month (1-12) and ISO string of new Date().\<close>
record stamp =
  s_nowMs :: nat
  s_uniqueId :: string
  s_year :: nat
  s_month :: nat
  s_iso :: string

definition resolve_input :: "stamp \<Rightarrow> upload_input \<Rightarrow> (string \<times> string \<times> bytes) option" where
  "resolve_input st input =
     (let name = ''asset_'' @ dec (s_nowMs st); type = ''application/octet-stream'' in
      case input of
        FileInput n t b \<Rightarrow> Some (n, t, b)
      | BlobInput t b \<Rightarrow> Some (name, t, b)
      | BufferInput b \<Rightarrow> Some (name, type, b)
      | WrappedInput n t b \<Rightarrow> Some (n, t, b)
      | OtherInput \<Rightarrow> None)"

text \<open>The character class [a-zA-Z0-9._-] of the path sanitiser.\<close>
definition safe_char :: "char \<Rightarrow> bool" where
  "safe_char c =
     (let n = (of_char c :: nat)
      in (97 \<le> n \<and> n \<le> 122) \<or> (65 \<le> n \<and> n \<le> 90) \<or> (48 \<le> n \<and> n \<le> 57)
         \<or> c = CHR ''.'' \<or> c = CHR ''_'' \<or> c = CHR ''-'')"

definition padStart2 :: "string \<Rightarrow> string" where
  "padStart2 s = replicate (2 - length s) (CHR ''0'') @ s"

definition upload_path :: "stamp \<Rightarrow> string \<Rightarrow> string" where
  "upload_path st name =
     ''uploads/'' @ dec (s_year st) @ ''_'' @ padStart2 (dec (s_month st)) @ ''/''
       @ s_uniqueId st @ ''_'' @ map (\<lambda>c. if safe_char c then c else CHR ''_'') name"

text \<open>The emit of upload (lines 360-374); the third argument is progress.currentChunk
  when a progress object is passed.\<close>
definition upload_emit :: "nat \<Rightarrow> string \<Rightarrow> log_type \<Rightarrow> nat option \<Rightarrow> unit action" where
  "upload_emit totalSize message logType progress =
     emit_log (Log message logType
       (case progress of
          None \<Rightarrow> None
        | Some currentChunk \<Rightarrow>
            Some \<lparr>p_currentChunk = currentChunk,
                  p_totalChunks = totalChunks totalSize,
                  p_loaded = currentChunk * CHUNK_SIZE,
                  p_total = totalSize,
                  p_stage = message\<rparr>))"

text \<open>The loop of lines 382-390 over i = 0 .. totalChunks - 1.\<close>
fun push_chunks :: "string \<Rightarrow> bytes \<Rightarrow> nat list \<Rightarrow> tree_entry list \<Rightarrow> (tree_entry list) action" where
  "push_chunks path buffer [] treeItems w = (Inr treeItems, w)"
| "push_chunks path buffer (i # rest) treeItems w =
     (case await (upload_emit (length buffer)
                    (''Pushing chunk '' @ dec (i + 1) @ ''/'' @ dec (totalChunks (length buffer)) @ ''...'')
                    Process (Some (i + 1)))
                 (\<lambda>_. request PostBlob (srv_post_blob (Raw (chunk buffer i)))) w of
        (Inl e, w') \<Rightarrow> (Inl e, w')
      | (Inr blob, w') \<Rightarrow>
          push_chunks path buffer rest
            (treeItems @ [blob_item (path @ ''/chunk_'' @ dec (i + 1)) blob]) w')"

definition build_manifest :: "stamp \<Rightarrow> string \<Rightarrow> string \<Rightarrow> nat \<Rightarrow> string \<Rightarrow> cdn_manifest" where
  "build_manifest st name type totalSize path =
     \<lparr>m_id = s_uniqueId st, m_fileName = name, m_uniqueId = s_uniqueId st,
      m_totalChunks = totalChunks totalSize, m_chunkSize = CHUNK_SIZE,
      m_totalSize = totalSize, m_mimeType = type, m_pathPrefix = path,
      m_uploadedAt = s_iso st, m_optimized = True\<rparr>"

definition build_asset :: "cdn_config \<Rightarrow> stamp \<Rightarrow> string \<Rightarrow> string \<Rightarrow> nat \<Rightarrow> string \<Rightarrow> cdn_asset" where
  "build_asset cfg st name type totalSize path =
     \<lparr>a_id = s_uniqueId st, a_name = name, a_size = totalSize, a_type = type, a_path = path,
      a_uploadedAt = s_iso st, a_links = Some (resolveLinks cfg path)\<rparr>"

text \<open>Lines 353-421: everything from the chunking up to the new commit.\<close>
definition upload_stage :: "cdn_config \<Rightarrow> stamp \<Rightarrow> string \<Rightarrow> string \<Rightarrow> bytes \<Rightarrow> (sha \<times> cdn_asset) action" where
  "upload_stage cfg st name type buffer =
     (let totalSize = length buffer;
          path = upload_path st name in
     await (upload_emit totalSize (''Inverting Data: '' @ name) Info (Some 0)) (\<lambda>_.
     await (request GetRef srv_get_ref) (\<lambda>baseSha.
     await (push_chunks path buffer [0..<totalChunks totalSize] []) (\<lambda>treeItems.
     await (upload_emit totalSize ''Finalizing manifest...'' Info (Some (totalChunks totalSize))) (\<lambda>_.
     await (request PostBlob (srv_post_blob (ManifestDoc (build_manifest st name type totalSize path)))) (\<lambda>mBlob.
     await (upload_emit totalSize ''Synchronizing registry...'' Info None) (\<lambda>_.
     await (list_assets cfg) (\<lambda>registry.
     let newAsset = build_asset cfg st name type totalSize path in
     await (request PostBlob (srv_post_blob (RegistryDoc (newAsset # registry)))) (\<lambda>rBlob.
     await (upload_emit totalSize ''Creating atomic commit...'' Process None) (\<lambda>_.
     await (request PostTree (srv_post_tree (Some baseSha)
              (treeItems @ [blob_item (path @ ''/manifest.json'') mBlob,
                            blob_item ''registry.json'' rBlob]))) (\<lambda>tree.
     await (request PostCommit (srv_post_commit (''CDN Upload: '' @ name) tree [baseSha])) (\<lambda>commit.
     ret (commit, newAsset)))))))))))))"

text \<open>Lines 423-427: the update of the branch, then the closing events.\<close>
definition upload_publish :: "nat \<Rightarrow> sha \<times> cdn_asset \<Rightarrow> cdn_asset action" where
  "upload_publish totalSize r =
     (case r of (commit, newAsset) \<Rightarrow>
     await (request PatchRef (srv_patch_ref commit)) (\<lambda>_.
     await (upload_emit totalSize ''Upload successful.'' Success (Some (totalChunks totalSize))) (\<lambda>_.
     await (emit_log (Done ''Success'' (Some newAsset))) (\<lambda>_.
     ret newAsset))))"

text \<open>Lines 335-351 resolve the input; an input of no supported shape throws before
  any request is made.\<close>
definition upload :: "cdn_config \<Rightarrow> stamp \<Rightarrow> upload_input \<Rightarrow> cdn_asset action" where
  "upload cfg st input =
     (case resolve_input st input of
        None \<Rightarrow> throw UnsupportedInput
      | Some (name, type, buffer) \<Rightarrow>
          await (upload_stage cfg st name type buffer) (upload_publish (length buffer)))"

section \<open>sync (lines 512-558)\<close>

definition asset_of_manifest :: "cdn_config \<Rightarrow> cdn_manifest \<Rightarrow> cdn_asset" where
  "asset_of_manifest cfg d =
     \<lparr>a_id = m_id d, a_name = m_fileName d, a_size = m_totalSize d, a_type = m_mimeType d,
      a_path = m_pathPrefix d, a_uploadedAt = m_uploadedAt d,
      a_links = Some (resolveLinks cfg (m_pathPrefix d))\<rparr>"

text \<open>JSON.parse of a blob read as a manifest. A blob that is no manifest document is
  taken to fail here (for a JSON document of another shape the source goes on with
  undefined fields).\<close>
definition decode_manifest :: "content \<Rightarrow> cdn_manifest action" where
  "decode_manifest c = (case c of ManifestDoc d \<Rightarrow> ret d | _ \<Rightarrow> throw SyntaxError)"

text \<open>The loop of lines 525-537.\<close>
fun recover :: "cdn_config \<Rightarrow> tree_entry list \<Rightarrow> cdn_asset list \<Rightarrow> (cdn_asset list) action" where
  "recover cfg [] recovered w = (Inr recovered, w)"
| "recover cfg (m # rest) recovered w =
     (case await (request GetBlob (srv_get_blob (e_sha m))) decode_manifest w of
        (Inl e, w') \<Rightarrow> (Inl e, w')
      | (Inr d, w') \<Rightarrow> recover cfg rest (recovered @ [asset_of_manifest cfg d]) w')"


section \<open>fetch (lines 433-507)\<close>

text \<open>A Response of the global fetch, with what its json() and arrayBuffer() give
  (no manifest when json() rejects).\<close>
record response =
  r_ok :: bool
  r_json :: "cdn_manifest option"
  r_arrayBuffer :: bytes

text \<open>The global fetch on the two mirrors, by URL: no response when the promise
  rejects (transport failure).\<close>
type_synonym net = "string \<Rightarrow> response option"

definition sources :: "cdn_config \<Rightarrow> string \<Rightarrow> string \<times> string" where
  "sources cfg assetPath =
     (''https://cdn.jsdelivr.net/gh/'' @ owner cfg @ ''/'' @ repo cfg @ ''@'' @ branch cfg @ ''/'' @ assetPath,
      ''https://raw.githubusercontent.com/'' @ owner cfg @ ''/'' @ repo cfg @ ''/'' @ branch cfg @ ''/'' @ assetPath)"

definition net_fetch :: "net \<Rightarrow> string \<Rightarrow> response action" where
  "net_fetch net url = (case net url of None \<Rightarrow> throw NetworkError | Some r \<Rightarrow> ret r)"

text \<open>getManifest (lines 444-457).\<close>
definition getManifest :: "net \<Rightarrow> string \<times> string \<Rightarrow> (response \<times> string) action" where
  "getManifest net srcs =
     try_catch
       (await (net_fetch net (fst srcs @ ''/manifest.json'')) (\<lambda>res.
        if r_ok res then ret (res, ''Public CDN'') else throw PlainError))
       (\<lambda>e. await (emit ''CDN miss. Fetching via Auth...'' Warning) (\<lambda>_.
            await (net_fetch net (snd srcs @ ''/manifest.json'')) (\<lambda>res.
            ret (res, ''GitHub Auth''))))"

datatype stream_status = Readable | Closed | Errored

text \<open>The state of the stream's start function: chunkMap, next, the workers array
  (a download is named by its chunk index), the loop variable i, what
  controller.enqueue has delivered so far, and the state of the stream.\<close>
record stream_state =
  chunkMap :: "(nat \<times> bytes) list"
  nxt :: nat
  workers :: "nat list"
  i_loop :: nat
  queue :: "bytes list"
  status :: stream_status

definition start_state :: stream_state where
  "start_state = \<lparr>chunkMap = [], nxt = 1, workers = [], i_loop = 1, queue = [], status = Readable\<rparr>"

text \<open>Lines 433-462 and 506: the manifest is read, the stream is created.\<close>
definition fetch :: "cdn_config \<Rightarrow> net \<Rightarrow> string \<Rightarrow> (stream_state \<times> cdn_manifest) action" where
  "fetch cfg net assetPath =
     await (emit ''Retrieving manifest...'' Info) (\<lambda>_.
     await (getManifest net (sources cfg assetPath)) (\<lambda>(mRes, source).
     if \<not> r_ok mRes then throw ManifestNotFound
     else (case r_json mRes of
             None \<Rightarrow> throw SyntaxError
           | Some manifest \<Rightarrow>
     await (emit (''Verified via '' @ source @ ''. Pipelining '' @ dec (m_totalChunks manifest) @ '' chunks.'') Success) (\<lambda>_.
     ret (start_state, manifest)))))"

text \<open>get (lines 471-482): the response of the first mirror when it is ok, else
  whatever the second mirror answers; no response when that fetch rejects.\<close>
definition get :: "net \<Rightarrow> string \<times> string \<Rightarrow> nat \<Rightarrow> response option" where
  "get net srcs i =
     (case net (fst srcs @ ''/chunk_'' @ dec i) of
        Some r \<Rightarrow> if r_ok r then Some r else net (snd srcs @ ''/chunk_'' @ dec i)
      | None \<Rightarrow> net (snd srcs @ ''/chunk_'' @ dec i))"

lemma length_delete_less:
  "map_of m k = Some b \<Longrightarrow> length (AList.delete k m) < length m"
proof -
  assume "map_of m k = Some b"
  then have "(k, b) \<in> set m" by (rule map_of_SomeD)
  then have "length (filter (\<lambda>p. k \<noteq> fst p) m) < length m"
    by (intro length_filter_less [of "(k, b)"]) auto
  moreover have "AList.delete k m = filter (\<lambda>p. k \<noteq> fst p) m"
    by (simp add: AList.delete_eq case_prod_unfold)
  ultimately show ?thesis by simp
qed

text \<open>The loop of lines 486-490. controller.enqueue throws once the stream is no
  longer readable, which ends the download that called it.\<close>
function drain :: "stream_state \<Rightarrow> stream_state" where
  "drain s =
     (case map_of (chunkMap s) (nxt s) of
        None \<Rightarrow> s
      | Some b \<Rightarrow>
          if status s \<noteq> Readable then s
          else drain (s\<lparr>queue := queue s @ [b],
                        chunkMap := AList.delete (nxt s) (chunkMap s),
                        nxt := nxt s + 1\<rparr>))"
  by pat_completeness auto
termination
  by (relation "measure (\<lambda>s. length (chunkMap s))") (auto simp: length_delete_less)

declare drain.simps [simp del]

text \<open>What can happen next in start (lines 466-503): the loop starts download(i)
  (it waits on Promise.race while ten downloads are in flight), the body of download k
  arrives (lines 483-490) or its fetch rejects, or Promise.all is through and the
  stream is closed.\<close>
datatype event = Launch | Settle nat | Finish

definition launch :: "nat \<Rightarrow> stream_state \<Rightarrow> stream_state option" where
  "launch n s =
     (if status s = Readable \<and> i_loop s \<le> n \<and> length (workers s) < 10
      then Some (s\<lparr>workers := workers s @ [i_loop s], i_loop := i_loop s + 1\<rparr>)
      else None)"

definition settle :: "net \<Rightarrow> string \<times> string \<Rightarrow> nat \<Rightarrow> stream_state \<Rightarrow> stream_state option" where
  "settle net srcs k s =
     (if k \<notin> set (workers s) then None
      else case get net srcs k of
             None \<Rightarrow> Some (s\<lparr>workers := remove1 k (workers s), status := Errored\<rparr>)
           | Some r \<Rightarrow>
               Some (drain (s\<lparr>workers := remove1 k (workers s),
                               chunkMap := AList.update k (r_arrayBuffer r) (chunkMap s)\<rparr>)))"

definition finish :: "nat \<Rightarrow> stream_state \<Rightarrow> stream_state option" where
  "finish n s =
     (if status s = Readable \<and> n < i_loop s \<and> workers s = []
      then Some (s\<lparr>status := Closed\<rparr>)
      else None)"

fun step :: "net \<Rightarrow> string \<times> string \<Rightarrow> nat \<Rightarrow> event \<Rightarrow> stream_state \<Rightarrow> stream_state option" where
  "step net srcs n Launch s = launch n s"
| "step net srcs n (Settle k) s = settle net srcs k s"
| "step net srcs n Finish s = finish n s"

text \<open>A schedule is a list of events; it is possible when every event is enabled
  where it stands.\<close>
fun run :: "net \<Rightarrow> string \<times> string \<Rightarrow> nat \<Rightarrow> event list \<Rightarrow> stream_state \<Rightarrow> stream_state option" where
  "run net srcs n [] s = Some s"
| "run net srcs n (e # es) s =
     (case step net srcs n e s of None \<Rightarrow> None | Some s' \<Rightarrow> run net srcs n es s')"

section \<open>Chunker lemmas\<close>

lemma CHUNK_SIZE_pos: "0 < CHUNK_SIZE"
  by (simp add: CHUNK_SIZE_def)

lemma totalChunks_bounds:
  "totalChunks n * CHUNK_SIZE < n + CHUNK_SIZE \<and> n \<le> totalChunks n * CHUNK_SIZE"
proof -
  define c where "c = CHUNK_SIZE"
  have c: "0 < c" by (simp add: c_def CHUNK_SIZE_pos)
  have e: "(n + c - 1) = ((n + c - 1) div c) * c + (n + c - 1) mod c" by simp
  have m: "(n + c - 1) mod c < c" using c by simp
  have "((n + c - 1) div c) * c < n + c \<and> n \<le> ((n + c - 1) div c) * c"
    using e m c by linarith
  then show ?thesis by (simp add: totalChunks_def c_def)
qed

lemma length_chunk:
  "length (chunk buffer i) = min ((i + 1) * CHUNK_SIZE) (length buffer) - i * CHUNK_SIZE"
  by (auto simp: chunk_def slice_def min_def)

lemma length_chunk_le: "length (chunk buffer i) \<le> CHUNK_SIZE"
  by (auto simp: length_chunk min_def)

lemma length_chunk_full:
  assumes "Suc i < totalChunks (length buffer)"
  shows "length (chunk buffer i) = CHUNK_SIZE"
proof -
  have "Suc (Suc i) \<le> totalChunks (length buffer)" using assms by simp
  then have "Suc (Suc i) * CHUNK_SIZE \<le> totalChunks (length buffer) * CHUNK_SIZE"
    by (rule mult_le_mono1)
  moreover have "totalChunks (length buffer) * CHUNK_SIZE < length buffer + CHUNK_SIZE"
    using totalChunks_bounds by blast
  ultimately have "Suc i * CHUNK_SIZE < length buffer" by simp
  then show ?thesis by (simp add: length_chunk min_def)
qed

lemma concat_chunks_upto:
  "k * CHUNK_SIZE \<le> length buffer + CHUNK_SIZE \<Longrightarrow>
   concat (map (chunk buffer) [0..<k]) = take (k * CHUNK_SIZE) buffer"
proof (induction k)
  case 0
  then show ?case by simp
next
  case (Suc k)
  have ih: "concat (map (chunk buffer) [0..<k]) = take (k * CHUNK_SIZE) buffer"
    using Suc by simp
  have "chunk buffer k = take CHUNK_SIZE (drop (k * CHUNK_SIZE) buffer)"
  proof (cases "(k + 1) * CHUNK_SIZE \<le> length buffer")
    case True
    then show ?thesis by (simp add: chunk_def slice_def min_def)
  next
    case False
    then have "chunk buffer k = take (length buffer - k * CHUNK_SIZE) (drop (k * CHUNK_SIZE) buffer)"
      by (simp add: chunk_def slice_def min_def)
    also have "\<dots> = drop (k * CHUNK_SIZE) buffer" by simp
    also have "\<dots> = take CHUNK_SIZE (drop (k * CHUNK_SIZE) buffer)"
      using False by simp
    finally show ?thesis .
  qed
  then have "concat (map (chunk buffer) [0..<Suc k])
      = take (k * CHUNK_SIZE) buffer @ take CHUNK_SIZE (drop (k * CHUNK_SIZE) buffer)"
    using ih by simp
  also have "\<dots> = take (k * CHUNK_SIZE + CHUNK_SIZE) buffer"
    by (simp add: take_add)
  finally show ?case by (simp add: add.commute)
qed

lemma concat_chunks: "concat (chunks buffer) = buffer"
proof -
  have "totalChunks (length buffer) * CHUNK_SIZE \<le> length buffer + CHUNK_SIZE"
    using totalChunks_bounds [of "length buffer"] by simp
  then have "concat (chunks buffer) = take (totalChunks (length buffer) * CHUNK_SIZE) buffer"
    unfolding chunks_def by (rule concat_chunks_upto)
  also have "\<dots> = buffer"
    using totalChunks_bounds [of "length buffer"] by simp
  finally show ?thesis .
qed

lemma totalChunks_ceiling: "int (totalChunks n) = \<lceil>real n / real CHUNK_SIZE\<rceil>"
proof -
  have b: "totalChunks n * CHUNK_SIZE < n + CHUNK_SIZE" "n \<le> totalChunks n * CHUNK_SIZE"
    using totalChunks_bounds by blast+
  have c: "0 < real CHUNK_SIZE" using CHUNK_SIZE_pos by simp
  have "real (totalChunks n * CHUNK_SIZE) < real (n + CHUNK_SIZE)"
    using b(1) by (rule of_nat_less_iff [THEN iffD2])
  then have "(real (totalChunks n) - 1) * real CHUNK_SIZE < real n"
    by (simp add: algebra_simps)
  then have l: "real (totalChunks n) - 1 < real n / real CHUNK_SIZE"
    using c by (simp add: pos_less_divide_eq)
  have "real n \<le> real (totalChunks n * CHUNK_SIZE)"
    using b(2) by (rule of_nat_le_iff [THEN iffD2])
  then have u: "real n / real CHUNK_SIZE \<le> real (totalChunks n)"
    using c by (simp add: pos_divide_le_eq)
  have "\<lceil>real n / real CHUNK_SIZE\<rceil> = int (totalChunks n)"
    by (rule ceiling_unique) (use l u in simp_all)
  then show ?thesis by simp
qed

lemma sizes_12MiB:
  "length buffer = 12582912 \<Longrightarrow> map length (chunks buffer) = [5242880, 5242880, 2097152]"
proof -
  assume l: "length buffer = 12582912"
  have t: "totalChunks 12582912 = 3" by (simp add: totalChunks_def CHUNK_SIZE_def)
  have u: "[0..<3] = [0, 1, 2]" by (simp add: upt_rec)
  show ?thesis by (simp add: chunks_def l t u length_chunk CHUNK_SIZE_def)
qed

lemma nth_chunks: "i < totalChunks (length buffer) \<Longrightarrow> chunks buffer ! i = chunk buffer i"
  by (simp add: chunks_def)

section \<open>What every step of a pipeline preserves\<close>


definition grows :: "world \<Rightarrow> world \<Rightarrow> bool" where
  "grows w w' = (head w' = head w \<and> prefix (objects w) (objects w') \<and> fails w' = fails w
                 \<and> prefix (history w) (history w') \<and> prefix (updates w) (updates w'))"

definition always :: "(world \<Rightarrow> world \<Rightarrow> bool) \<Rightarrow> 'a action \<Rightarrow> bool" where
  "always R m = (\<forall>w r w'. m w = (r, w') \<longrightarrow> R w w')"

definition on_success :: "(world \<Rightarrow> world \<Rightarrow> bool) \<Rightarrow> 'a action \<Rightarrow> bool" where
  "on_success R m = (\<forall>w x w'. m w = (Inr x, w') \<longrightarrow> R w w')"

lemma grows_refl: "grows w w" by (simp add: grows_def)
lemma grows_trans: "grows a b \<Longrightarrow> grows b c \<Longrightarrow> grows a c"
  by (auto simp: grows_def)

lemma await_Inr:
  "await m f w = (Inr y, w') \<longleftrightarrow> (\<exists>x w1. m w = (Inr x, w1) \<and> f x w1 = (Inr y, w'))"
  by (auto simp: await_def split: prod.splits sum.splits)

lemma await_Inl:
  "await m f w = (Inl e, w') \<longleftrightarrow>
     m w = (Inl e, w') \<or> (\<exists>x w1. m w = (Inr x, w1) \<and> f x w1 = (Inl e, w'))"
  by (auto simp: await_def split: prod.splits sum.splits)

lemma always_ret: "(\<And>w. R w w) \<Longrightarrow> always R (ret x)"
  by (simp add: always_def ret_def)

lemma always_throw: "(\<And>w. R w w) \<Longrightarrow> always R (throw e)"
  by (simp add: always_def throw_def)

lemma always_await:
  assumes "always R m" "\<And>x. always R (f x)" "\<And>a b c. R a b \<Longrightarrow> R b c \<Longrightarrow> R a c"
  shows "always R (await m f)"
  unfolding always_def
proof (intro allI impI)
  fix w r w' assume a: "await m f w = (r, w')"
  obtain r1 w1 where m: "m w = (r1, w1)" by (cases "m w")
  show "R w w'"
  proof (cases r1)
    case (Inl e)
    with a m have "w' = w1" by (simp add: await_def)
    with assms(1) m show ?thesis by (auto simp: always_def)
  next
    case (Inr x)
    with a m have "f x w1 = (r, w')" by (simp add: await_def)
    with assms(2) have "R w1 w'" by (auto simp: always_def)
    moreover from assms(1) m have "R w w1" by (auto simp: always_def)
    ultimately show ?thesis by (rule assms(3) [rotated])
  qed
qed

lemma always_try_catch:
  assumes "always R m" "\<And>e. always R (h e)" "\<And>a b c. R a b \<Longrightarrow> R b c \<Longrightarrow> R a c"
  shows "always R (try_catch m h)"
  unfolding always_def
proof (intro allI impI)
  fix w r w' assume a: "try_catch m h w = (r, w')"
  obtain r1 w1 where m: "m w = (r1, w1)" by (cases "m w")
  show "R w w'"
  proof (cases r1)
    case (Inr x)
    with a m have "w' = w1" by (simp add: try_catch_def)
    with assms(1) m show ?thesis by (auto simp: always_def)
  next
    case (Inl e)
    with a m have "h e w1 = (r, w')" by (simp add: try_catch_def)
    with assms(2) have "R w1 w'" by (auto simp: always_def)
    moreover from assms(1) m have "R w w1" by (auto simp: always_def)
    ultimately show ?thesis by (rule assms(3) [rotated])
  qed
qed

lemma on_success_await:
  assumes "on_success R m" "\<And>x. on_success R (f x)" "\<And>a b c. R a b \<Longrightarrow> R b c \<Longrightarrow> R a c"
  shows "on_success R (await m f)"
  using assms unfolding on_success_def await_Inr by blast

lemma on_success_throw: "on_success R (throw e)"
  by (simp add: on_success_def throw_def)

lemma on_success_ret: "(\<And>w. R w w) \<Longrightarrow> on_success R (ret x)"
  by (simp add: on_success_def ret_def)

lemma always_on_success: "always R m \<Longrightarrow> on_success R m"
  by (simp add: always_def on_success_def)

lemma grows_request: "always grows serve \<Longrightarrow> always grows (request ep serve)"
  unfolding always_def request_def Let_def
  by (auto simp: grows_def split: if_splits) (fastforce simp: prefix_def)+

lemma grows_emit_log: "always grows (emit_log l)"
  by (simp add: always_def emit_log_def grows_def)

lemma grows_store_obj: "always grows (store_obj ob)"
  by (auto simp: always_def store_obj_def grows_def)

lemma grows_srv_get_ref: "always grows srv_get_ref"
  by (auto simp: always_def srv_get_ref_def grows_refl split: option.splits)

lemma grows_srv_get_tree: "always grows (srv_get_tree s)"
  by (auto simp: always_def srv_get_tree_def grows_refl split: option.splits)

lemma grows_srv_get_blob: "always grows (srv_get_blob s)"
  by (auto simp: always_def srv_get_blob_def grows_refl split: option.splits obj.splits)

lemma grows_srv_get_contents: "always grows (srv_get_contents p)"
  using grows_srv_get_blob
  by (auto simp: always_def srv_get_contents_def grows_refl split: option.splits)

lemma grows_srv_post_blob: "always grows (srv_post_blob c)"
  by (simp add: srv_post_blob_def grows_store_obj)

lemma grows_srv_post_tree: "always grows (srv_post_tree base items)"
  using grows_store_obj
  by (auto simp: always_def srv_post_tree_def grows_refl split: option.splits)

lemma grows_srv_post_commit: "always grows (srv_post_commit msg t ps)"
  using grows_store_obj
  by (auto simp: always_def srv_post_commit_def grows_refl split: if_splits)

lemma grows_await:
  "always grows m \<Longrightarrow> (\<And>x. always grows (f x)) \<Longrightarrow> always grows (await m f)"
  by (rule always_await) (blast intro: grows_trans)+

lemma grows_try_catch:
  "always grows m \<Longrightarrow> (\<And>e. always grows (h e)) \<Longrightarrow> always grows (try_catch m h)"
  by (rule always_try_catch) (blast intro: grows_trans)+

lemma grows_ret: "always grows (ret x)"
  by (rule always_ret) (rule grows_refl)

lemma grows_throw: "always grows (throw e)"
  by (rule always_throw) (rule grows_refl)

lemmas grows_intros =
  grows_await grows_try_catch grows_ret grows_throw
  grows_request grows_emit_log grows_srv_get_ref grows_srv_get_tree grows_srv_get_blob
  grows_srv_get_contents grows_srv_post_blob grows_srv_post_tree grows_srv_post_commit

lemma grows_emit: "always grows (emit m t)"
  by (simp add: emit_def grows_emit_log)

lemma grows_upload_emit: "always grows (upload_emit n m t p)"
  by (simp add: upload_emit_def grows_emit_log)

lemma grows_decode_registry: "always grows (decode_registry c)"
  by (cases c) (simp_all add: decode_registry_def grows_intros)

lemma grows_decode_manifest: "always grows (decode_manifest c)"
  by (cases c) (simp_all add: decode_manifest_def grows_intros)

lemma grows_list_assets: "always grows (list_assets cfg)"
  unfolding list_assets_def
  by (intro grows_intros grows_decode_registry)

lemma push_chunks_Nil: "push_chunks path buffer [] acc = ret acc"
  by (rule ext) (simp add: ret_def)

lemma push_chunks_Cons:
  "push_chunks path buffer (i # rest) acc =
     await (await (upload_emit (length buffer)
                    (''Pushing chunk '' @ dec (i + 1) @ ''/'' @ dec (totalChunks (length buffer)) @ ''...'')
                    Process (Some (i + 1)))
                 (\<lambda>_. request PostBlob (srv_post_blob (Raw (chunk buffer i)))))
       (\<lambda>blob. push_chunks path buffer rest
                  (acc @ [blob_item (path @ ''/chunk_'' @ dec (i + 1)) blob]))"
  by (rule ext) (simp add: await_def split: prod.splits sum.splits)

lemma recover_Nil: "recover cfg [] acc = ret acc"
  by (rule ext) (simp add: ret_def)

lemma recover_Cons:
  "recover cfg (m # rest) acc =
     await (await (request GetBlob (srv_get_blob (e_sha m))) decode_manifest)
       (\<lambda>d. recover cfg rest (acc @ [asset_of_manifest cfg d]))"
  by (rule ext) (simp add: await_def split: prod.splits sum.splits)

lemma grows_push_chunks: "always grows (push_chunks path buffer is acc)"
proof (induction "is" arbitrary: acc)
  case Nil
  show ?case unfolding push_chunks_Nil by (intro grows_intros)
next
  case (Cons i rest)
  show ?case unfolding push_chunks_Cons
    by (intro grows_intros grows_upload_emit Cons)
qed

lemma grows_recover: "always grows (recover cfg ms acc)"
proof (induction ms arbitrary: acc)
  case Nil
  show ?case unfolding recover_Nil by (intro grows_intros)
next
  case (Cons m rest)
  show ?case unfolding recover_Cons
    by (intro grows_intros grows_decode_manifest Cons)
qed

lemma grows_upload_stage: "always grows (upload_stage cfg st name type buffer)"
  unfolding upload_stage_def Let_def
  by (intro grows_intros grows_upload_emit grows_push_chunks grows_list_assets)

lemma grows_delete_stage: "always grows (delete_stage ident folderPath)"
  unfolding delete_stage_def Let_def
  by (auto split: option.splits intro!: grows_intros grows_emit grows_decode_registry)


section \<open>A small repository to run the pipelines on\<close>

definition cfg0 :: cdn_config where
  "cfg0 = \<lparr>token = ''t'', owner = ''o'', repo = ''r'', branch = ''main'', userAgent = ''Github-CDN-SDK-v6''\<rparr>"

definition asset0 :: cdn_asset where
  "asset0 = \<lparr>a_id = ''a0'', a_name = ''old.bin'', a_size = 4, a_type = ''application/octet-stream'',
             a_path = ''uploads/2026_01/a0_old.bin'', a_uploadedAt = ''2026-01-24T12:00:00Z'',
             a_links = None\<rparr>"

definition world0 :: world where
  "world0 = \<lparr>objects = [Blob (RegistryDoc [asset0]), Tree [blob_item ''registry.json'' 0],
                         Commit ''init'' 1 []],
             head = Some 2, history = [], fails = (\<lambda>k. False), updates = []\<rparr>"

lemma dirs_registry: "dirs_of ''registry.json'' = []"
  by code_simp

lemma listing_world0: "listing (world0\<lparr>history := h, fails := f, updates := u\<rparr>) 2 = Some [blob_item ''registry.json'' 0]"
  by (simp add: listing_def tree_of_def lookup_def world0_def dirs_registry blob_item_def)

section \<open>The claims\<close>

text \<open>C9. list() never throws: whatever the read of registry.json does, it returns a
  sequence. When the request fails (an error of the request, or the registry object is
  missing) or the content does not decode to a registry, the sequence is empty; when
  the read succeeds, it is the decoded assets in their order, each with its links
  filled in where they were missing.\<close>
theorem C9_list_never_throws:
  "(\<exists>assets w'. list_assets cfg w = (Inr assets, w'))
   \<and> (\<forall>e w1. request GetContents (srv_get_contents ''registry.json'') w = (Inl e, w1)
         \<longrightarrow> list_assets cfg w = (Inr [], w1))
   \<and> (\<forall>c w1. request GetContents (srv_get_contents ''registry.json'') w = (Inr c, w1)
         \<longrightarrow> (\<forall>reg. c \<noteq> RegistryDoc reg) \<longrightarrow> list_assets cfg w = (Inr [], w1))
   \<and> (\<forall>reg w1. request GetContents (srv_get_contents ''registry.json'') w = (Inr (RegistryDoc reg), w1)
         \<longrightarrow> list_assets cfg w = (Inr (map (inject_links cfg) reg), w1))"
proof -
  obtain r w1 where q: "request GetContents (srv_get_contents ''registry.json'') w = (r, w1)"
    by (cases "request GetContents (srv_get_contents ''registry.json'') w")
  show ?thesis
  proof (cases r)
    case (Inl e)
    with q show ?thesis
      by (simp add: list_assets_def try_catch_def await_def ret_def)
  next
    case (Inr c)
    with q show ?thesis
      by (cases c)
         (simp_all add: list_assets_def try_catch_def await_def ret_def throw_def decode_registry_def)
  qed
qed

theorem C9_list_never_throws_witness:
  "list_assets cfg0 world0
     = (Inr [asset0\<lparr>a_links := Some (resolveLinks cfg0 ''uploads/2026_01/a0_old.bin'')\<rparr>],
        world0\<lparr>history := [(GetContents, True)]\<rparr>)
   \<and> list_assets cfg0 (world0\<lparr>fails := (\<lambda>k. True)\<rparr>)
     = (Inr [], world0\<lparr>fails := (\<lambda>k. True), history := [(GetContents, False)]\<rparr>)
   \<and> list_assets cfg0 (world0\<lparr>head := None\<rparr>)
     = (Inr [], world0\<lparr>head := None, history := [(GetContents, True)]\<rparr>)"
proof -
  have a: "request GetContents (srv_get_contents ''registry.json'') world0
            = (Inr (RegistryDoc [asset0]), world0\<lparr>history := [(GetContents, True)]\<rparr>)"
    using listing_world0 [where h = "[(GetContents, True)]" and f = "\<lambda>k. False" and u = "[]"]
    by (simp add: request_def srv_get_contents_def srv_get_blob_def lookup_def world0_def blob_item_def)
  have b: "request GetContents (srv_get_contents ''registry.json'') (world0\<lparr>fails := (\<lambda>k. True)\<rparr>)
            = (Inl (ApiError 500), world0\<lparr>fails := (\<lambda>k. True), history := [(GetContents, False)]\<rparr>)"
    by (simp add: request_def world0_def)
  have c: "request GetContents (srv_get_contents ''registry.json'') (world0\<lparr>head := None\<rparr>)
            = (Inl (ApiError 404), world0\<lparr>head := None, history := [(GetContents, True)]\<rparr>)"
    by (simp add: request_def srv_get_contents_def world0_def)
  show ?thesis
    using C9_list_never_throws [of cfg0 world0] C9_list_never_throws [of cfg0 "world0\<lparr>fails := (\<lambda>k. True)\<rparr>"]
      C9_list_never_throws [of cfg0 "world0\<lparr>head := None\<rparr>"] a b c
    by (simp add: inject_links_def asset0_def)
qed


lemma grows_lookup: "grows w w' \<Longrightarrow> lookup w s = Some ob \<Longrightarrow> lookup w' s = Some ob"
  by (auto simp: grows_def lookup_def prefix_def nth_append split: if_splits)

lemma request_Inr:
  "request ep serve w = (Inr x, w') \<Longrightarrow>
     \<not> fails w (length (history w)) \<and> serve (w\<lparr>history := history w @ [(ep, True)]\<rparr>) = (Inr x, w')"
  by (auto simp: request_def Let_def split: if_splits)

lemma store_obj_Inr:
  "store_obj ob w = (r, w') \<Longrightarrow> r = Inr (length (objects w)) \<and> w' = w\<lparr>objects := objects w @ [ob]\<rparr>"
  by (auto simp: store_obj_def)

lemma lookup_store_obj: "store_obj ob w = (Inr s, w') \<Longrightarrow> lookup w' s = Some ob"
  by (auto simp: store_obj_def lookup_def)

lemma post_blob_Inr:
  "request PostBlob (srv_post_blob c) w = (Inr s, w') \<Longrightarrow> lookup w' s = Some (Blob c)"
  by (drule request_Inr) (auto simp: srv_post_blob_def dest: lookup_store_obj)

lemma always_D: "always R m \<Longrightarrow> m w = (r, w') \<Longrightarrow> R w w'"
  by (auto simp: always_def)

lemma emit_log_Inr: "emit_log l w = (r, w') \<Longrightarrow> r = Inr () \<and> w' = w\<lparr>updates := updates w @ [l]\<rparr>"
  by (auto simp: emit_log_def)

lemma push_chunks_items:
  "push_chunks path buffer is acc w = (Inr items, w') \<Longrightarrow>
     length items = length acc + length is \<and> take (length acc) items = acc
     \<and> (\<forall>j<length is.
           e_path (items ! (length acc + j)) = path @ ''/chunk_'' @ dec (is ! j + 1)
         \<and> e_type (items ! (length acc + j)) = ''blob''
         \<and> lookup w' (e_sha (items ! (length acc + j))) = Some (Blob (Raw (chunk buffer (is ! j)))))"
proof (induction "is" arbitrary: acc w)
  case Nil
  then show ?case by simp
next
  case (Cons i rest)
  from Cons.prems obtain blob w1 w2 u where
    e: "upload_emit (length buffer)
          (''Pushing chunk '' @ dec (i + 1) @ ''/'' @ dec (totalChunks (length buffer)) @ ''...'')
          Process (Some (i + 1)) w = (Inr u, w1)"
    and b: "request PostBlob (srv_post_blob (Raw (chunk buffer i))) w1 = (Inr blob, w2)"
    and r: "push_chunks path buffer rest (acc @ [blob_item (path @ ''/chunk_'' @ dec (i + 1)) blob]) w2
              = (Inr items, w')"
    unfolding push_chunks_Cons await_Inr by blast
  let ?acc = "acc @ [blob_item (path @ ''/chunk_'' @ dec (i + 1)) blob]"
  note ih = Cons.IH [OF r]
  have g: "grows w2 w'" using grows_push_chunks r by (rule always_D)
  have l: "lookup w' blob = Some (Blob (Raw (chunk buffer i)))"
    using g post_blob_Inr [OF b] by (rule grows_lookup)
  from ih have len: "length items = length acc + length (i # rest)" by simp
  from ih have tk: "take (Suc (length acc)) items = ?acc" by simp
  have tk0: "take (length acc) items = acc"
  proof -
    have "take (length acc) (take (Suc (length acc)) items) = take (length acc) ?acc"
      using tk by simp
    then show ?thesis by (simp add: min_def)
  qed
  have hd: "items ! length acc = blob_item (path @ ''/chunk_'' @ dec (i + 1)) blob"
  proof -
    have "items ! length acc = take (Suc (length acc)) items ! length acc" by simp
    also have "\<dots> = ?acc ! length acc" using tk by simp
    finally show ?thesis by simp
  qed
  show ?case
  proof (intro conjI allI impI)
    show "length items = length acc + length (i # rest)" by (rule len)
    show "take (length acc) items = acc" by (rule tk0)
  next
    fix j assume j: "j < length (i # rest)"
    show "e_path (items ! (length acc + j)) = path @ ''/chunk_'' @ dec ((i # rest) ! j + 1)"
      using ih j hd by (cases j) (auto simp: blob_item_def)
    show "e_type (items ! (length acc + j)) = ''blob''"
      using ih j hd by (cases j) (auto simp: blob_item_def)
    show "lookup w' (e_sha (items ! (length acc + j))) = Some (Blob (Raw (chunk buffer ((i # rest) ! j))))"
      using ih j hd l by (cases j) (auto simp: blob_item_def)
  qed
qed


lemma dec_1: "dec (Suc 0) = ''1''"
  by code_simp

text \<open>C6 (as amended). upload splits every buffer into totalChunks =
  ceil(totalSize / 5242880) chunks, numbered from 1: chunk k is the byte range that
  starts at (k - 1) * 5242880 and is at most 5242880 bytes long, only the last one can
  be shorter, and together they are the buffer, with no gap and no overlap. The loop of
  upload writes chunk k as a blob under path/chunk_k. A buffer of 12582912 bytes gives
  three chunks of 5242880, 5242880 and 2097152 bytes and a manifest with totalChunks 3
  and totalSize 12582912.\<close>
theorem C6_chunking:
  "length (chunks buffer) = totalChunks (length buffer)
   \<and> int (totalChunks (length buffer)) = \<lceil>real (length buffer) / 5242880\<rceil>
   \<and> (\<forall>k. 1 \<le> k \<and> k \<le> totalChunks (length buffer) \<longrightarrow>
          chunks buffer ! (k - 1) = take 5242880 (drop ((k - 1) * 5242880) buffer)
        \<and> length (chunks buffer ! (k - 1)) \<le> 5242880
        \<and> (k < totalChunks (length buffer) \<longrightarrow> length (chunks buffer ! (k - 1)) = 5242880))
   \<and> concat (chunks buffer) = buffer
   \<and> (\<forall>path w items w'.
          push_chunks path buffer [0..<totalChunks (length buffer)] [] w = (Inr items, w') \<longrightarrow>
          length items = totalChunks (length buffer)
        \<and> (\<forall>k. 1 \<le> k \<and> k \<le> totalChunks (length buffer) \<longrightarrow>
               e_path (items ! (k - 1)) = path @ ''/chunk_'' @ dec k
             \<and> lookup w' (e_sha (items ! (k - 1))) = Some (Blob (Raw (chunks buffer ! (k - 1))))))
   \<and> (length buffer = 12582912 \<longrightarrow>
          map length (chunks buffer) = [5242880, 5242880, 2097152]
        \<and> m_totalChunks (build_manifest st name type (length buffer) path) = 3
        \<and> m_totalSize (build_manifest st name type (length buffer) path) = 12582912)"
proof (intro conjI)
  show "length (chunks buffer) = totalChunks (length buffer)"
    by (simp add: chunks_def)
  show "int (totalChunks (length buffer)) = \<lceil>real (length buffer) / 5242880\<rceil>"
    using totalChunks_ceiling [of "length buffer"] by (simp add: CHUNK_SIZE_def)
  show "\<forall>k. 1 \<le> k \<and> k \<le> totalChunks (length buffer) \<longrightarrow>
          chunks buffer ! (k - 1) = take 5242880 (drop ((k - 1) * 5242880) buffer)
        \<and> length (chunks buffer ! (k - 1)) \<le> 5242880
        \<and> (k < totalChunks (length buffer) \<longrightarrow> length (chunks buffer ! (k - 1)) = 5242880)"
  proof (intro allI impI)
    fix k assume k: "1 \<le> k \<and> k \<le> totalChunks (length buffer)"
    then have "k - 1 < totalChunks (length buffer)" by arith
    then have n: "chunks buffer ! (k - 1) = chunk buffer (k - 1)"
      by (rule nth_chunks)
    have t: "chunk buffer (k - 1) = take CHUNK_SIZE (drop ((k - 1) * CHUNK_SIZE) buffer)"
      by (auto simp: chunk_def slice_def min_def)
    have f: "length (chunk buffer (k - 1)) = CHUNK_SIZE" if "k < totalChunks (length buffer)"
    proof -
      from k that have "Suc (k - 1) < totalChunks (length buffer)" by arith
      then show ?thesis by (rule length_chunk_full)
    qed
    show "chunks buffer ! (k - 1) = take 5242880 (drop ((k - 1) * 5242880) buffer)
        \<and> length (chunks buffer ! (k - 1)) \<le> 5242880
        \<and> (k < totalChunks (length buffer) \<longrightarrow> length (chunks buffer ! (k - 1)) = 5242880)"
      using n t f length_chunk_le [of buffer "k - 1"] by (simp add: CHUNK_SIZE_def)
  qed
  show "concat (chunks buffer) = buffer" by (rule concat_chunks)
  show "\<forall>path w items w'.
          push_chunks path buffer [0..<totalChunks (length buffer)] [] w = (Inr items, w') \<longrightarrow>
          length items = totalChunks (length buffer)
        \<and> (\<forall>k. 1 \<le> k \<and> k \<le> totalChunks (length buffer) \<longrightarrow>
               e_path (items ! (k - 1)) = path @ ''/chunk_'' @ dec k
             \<and> lookup w' (e_sha (items ! (k - 1))) = Some (Blob (Raw (chunks buffer ! (k - 1)))))"
  proof (intro allI impI conjI)
    fix path w items w'
    assume p: "push_chunks path buffer [0..<totalChunks (length buffer)] [] w = (Inr items, w')"
    note it = push_chunks_items [OF p]
    show "length items = totalChunks (length buffer)" using it by simp
    fix k assume k: "1 \<le> k \<and> k \<le> totalChunks (length buffer)"
    then have "k - 1 < totalChunks (length buffer)" by arith
    then have j: "k - 1 < length [0..<totalChunks (length buffer)]" by simp
    from it j have "e_path (items ! (length ([]::tree_entry list) + (k - 1)))
          = path @ ''/chunk_'' @ dec ([0..<totalChunks (length buffer)] ! (k - 1) + 1)
        \<and> lookup w' (e_sha (items ! (length ([]::tree_entry list) + (k - 1))))
          = Some (Blob (Raw (chunk buffer ([0..<totalChunks (length buffer)] ! (k - 1)))))"
      by blast
    moreover have "[0..<totalChunks (length buffer)] ! (k - 1) = k - 1"
      using j by simp
    moreover have "k - 1 + 1 = k" using k by arith
    ultimately have a: "e_path (items ! (k - 1)) = path @ ''/chunk_'' @ dec k
        \<and> lookup w' (e_sha (items ! (k - 1))) = Some (Blob (Raw (chunk buffer (k - 1))))"
      by simp
    show "e_path (items ! (k - 1)) = path @ ''/chunk_'' @ dec k" using a by simp
    show "lookup w' (e_sha (items ! (k - 1))) = Some (Blob (Raw (chunks buffer ! (k - 1))))"
      using a j by (simp add: nth_chunks)
  qed
  show "length buffer = 12582912 \<longrightarrow>
          map length (chunks buffer) = [5242880, 5242880, 2097152]
        \<and> m_totalChunks (build_manifest st name type (length buffer) path) = 3
        \<and> m_totalSize (build_manifest st name type (length buffer) path) = 12582912"
    using sizes_12MiB [of buffer]
    by (simp add: build_manifest_def totalChunks_def CHUNK_SIZE_def)
qed

text \<open>The sizes the claim gives for the 12 MiB buffer, 5242880, 5242880 and 1572864,
  add up to 12058624 bytes only; they are not what the chunker produces.\<close>
theorem C6_sizes_counterexample:
  "map length (chunks (replicate 12582912 0)) \<noteq> [5242880, 5242880, 1572864]"
  using sizes_12MiB [of "replicate 12582912 0"] by simp

lemma push_one:
  "push_chunks ''p'' [7] [0..<totalChunks (length [7::byte])] [] world0
     = (Inr [blob_item ''p/chunk_1'' 3],
        world0\<lparr>objects := objects world0 @ [Blob (Raw [7])],
               history := [(PostBlob, True)],
               updates := [Log ''Pushing chunk 1/1...'' Process
                             (Some \<lparr>p_currentChunk = 1, p_totalChunks = 1, p_loaded = 5242880,
                                    p_total = 1, p_stage = ''Pushing chunk 1/1...''\<rparr>)]\<rparr>)"
  by (simp add: totalChunks_def CHUNK_SIZE_def await_def upload_emit_def emit_log_def request_def
       srv_post_blob_def store_obj_def world0_def dec_1 chunk_def slice_def numeral_3_eq_3)

theorem C6_chunking_witness:
  "map length (chunks (replicate 12582912 (0::byte))) = [5242880, 5242880, 2097152]
   \<and> concat (chunks (replicate 12582912 (0::byte))) = replicate 12582912 0
   \<and> int (totalChunks 12582912) = 3
   \<and> chunks [7::byte] = [[7]]
   \<and> lookup (world0\<lparr>objects := objects world0 @ [Blob (Raw [7])],
               history := [(PostBlob, True)],
               updates := [Log ''Pushing chunk 1/1...'' Process
                             (Some \<lparr>p_currentChunk = 1, p_totalChunks = 1, p_loaded = 5242880,
                                    p_total = 1, p_stage = ''Pushing chunk 1/1...''\<rparr>)]\<rparr>) 3
       = Some (Blob (Raw [7]))"
proof -
  have t: "totalChunks (Suc 0) = 1" by (simp add: totalChunks_def CHUNK_SIZE_def)
  have c: "chunks [7::byte] = [[7]]"
    by (simp add: chunks_def t chunk_def slice_def CHUNK_SIZE_def)
  have r: "\<lceil>(12582912::real) / 5242880\<rceil> = 3" by (simp add: ceiling_unique)
  have k: "1 \<le> (1::nat) \<and> 1 \<le> totalChunks (length [7::byte])" by (simp add: t)
  from C6_chunking [of "[7::byte]"] push_one k
  have "lookup (world0\<lparr>objects := objects world0 @ [Blob (Raw [7])],
               history := [(PostBlob, True)],
               updates := [Log ''Pushing chunk 1/1...'' Process
                             (Some \<lparr>p_currentChunk = 1, p_totalChunks = 1, p_loaded = 5242880,
                                    p_total = 1, p_stage = ''Pushing chunk 1/1...''\<rparr>)]\<rparr>)
          (e_sha ([blob_item ''p/chunk_1'' 3] ! (1 - 1)))
        = Some (Blob (Raw (chunks [7::byte] ! (1 - 1))))"
    by blast
  then show ?thesis
    using C6_chunking [of "replicate 12582912 (0::byte)"] c r
    by (simp add: blob_item_def)
qed


section \<open>What a pipeline reports to onUpdate\<close>

text \<open>From w to w' the pipeline has sent some more events, all of which satisfy P.\<close>
definition pays :: "(cdn_log \<Rightarrow> bool) \<Rightarrow> world \<Rightarrow> world \<Rightarrow> bool" where
  "pays P w w' = (\<exists>u. updates w' = updates w @ u \<and> list_all P u)"

text \<open>From w to w' the pipeline has sent the event l, among others.\<close>
definition emits :: "cdn_log \<Rightarrow> world \<Rightarrow> world \<Rightarrow> bool" where
  "emits l w w' = (\<exists>u. updates w' = updates w @ u \<and> l \<in> set u)"

definition upload_log :: "nat \<Rightarrow> string \<Rightarrow> log_type \<Rightarrow> nat option \<Rightarrow> cdn_log" where
  "upload_log totalSize message logType progress =
     Log message logType
       (case progress of
          None \<Rightarrow> None
        | Some currentChunk \<Rightarrow>
            Some \<lparr>p_currentChunk = currentChunk,
                  p_totalChunks = totalChunks totalSize,
                  p_loaded = currentChunk * CHUNK_SIZE,
                  p_total = totalSize,
                  p_stage = message\<rparr>)"

lemma upload_emit_log: "upload_emit n m t p = emit_log (upload_log n m t p)"
  by (simp add: upload_emit_def upload_log_def)

lemma pays_refl: "pays P w w" by (simp add: pays_def)

lemma pays_trans: "pays P a b \<Longrightarrow> pays P b c \<Longrightarrow> pays P a c"
  by (auto simp: pays_def)

lemma emits_pays: "emits l a b \<Longrightarrow> pays (\<lambda>_. True) b c \<Longrightarrow> emits l a c"
  by (auto simp: pays_def emits_def)

lemma pays_emits: "pays (\<lambda>_. True) a b \<Longrightarrow> emits l b c \<Longrightarrow> emits l a c"
  by (auto simp: pays_def emits_def)

lemma pays_emit_log: "P l \<Longrightarrow> always (pays P) (emit_log l)"
  by (simp add: always_def emit_log_def pays_def)

lemma emits_emit_log: "on_success (emits l) (emit_log l)"
  by (simp add: on_success_def emit_log_def emits_def)

lemma pays_request: "always (pays P) serve \<Longrightarrow> always (pays P) (request ep serve)"
  unfolding always_def request_def Let_def
  by (auto simp: pays_def split: if_splits) fastforce

lemma pays_store_obj: "always (pays P) (store_obj ob)"
  by (auto simp: always_def store_obj_def pays_def)

lemma pays_srv_get_ref: "always (pays P) srv_get_ref"
  by (auto simp: always_def srv_get_ref_def pays_refl split: option.splits)

lemma pays_srv_get_tree: "always (pays P) (srv_get_tree s)"
  by (auto simp: always_def srv_get_tree_def pays_refl split: option.splits)

lemma pays_srv_get_blob: "always (pays P) (srv_get_blob s)"
  by (auto simp: always_def srv_get_blob_def pays_refl split: option.splits obj.splits)

lemma pays_srv_get_contents: "always (pays P) (srv_get_contents p)"
  using pays_srv_get_blob [of P]
  by (auto simp: always_def srv_get_contents_def pays_refl split: option.splits)

lemma pays_srv_post_blob: "always (pays P) (srv_post_blob c)"
  by (simp add: srv_post_blob_def pays_store_obj)

lemma pays_srv_post_tree: "always (pays P) (srv_post_tree base items)"
  using pays_store_obj [of P]
  by (auto simp: always_def srv_post_tree_def pays_refl split: option.splits)

lemma pays_srv_post_commit: "always (pays P) (srv_post_commit msg t ps)"
  using pays_store_obj [of P]
  by (auto simp: always_def srv_post_commit_def pays_refl split: if_splits)

lemma pays_srv_patch_ref: "always (pays P) (srv_patch_ref s)"
  by (auto simp: always_def srv_patch_ref_def pays_def split: option.splits obj.splits if_splits)

lemma pays_await:
  "always (pays P) m \<Longrightarrow> (\<And>x. always (pays P) (f x)) \<Longrightarrow> always (pays P) (await m f)"
  by (rule always_await) (blast intro: pays_trans)+

lemma pays_try_catch:
  "always (pays P) m \<Longrightarrow> (\<And>e. always (pays P) (h e)) \<Longrightarrow> always (pays P) (try_catch m h)"
  by (rule always_try_catch) (blast intro: pays_trans)+

lemma pays_ret: "always (pays P) (ret x)"
  by (rule always_ret) (rule pays_refl)

lemma pays_throw: "always (pays P) (throw e)"
  by (rule always_throw) (rule pays_refl)

lemmas pays_intros =
  pays_await pays_try_catch pays_ret pays_throw
  pays_request pays_srv_get_ref pays_srv_get_tree pays_srv_get_blob
  pays_srv_get_contents pays_srv_post_blob pays_srv_post_tree pays_srv_post_commit
  pays_srv_patch_ref

lemma pays_decode_registry: "always (pays P) (decode_registry c)"
  by (cases c) (simp_all add: decode_registry_def pays_intros)

lemma pays_list_assets: "always (pays P) (list_assets cfg)"
  unfolding list_assets_def
  by (intro pays_intros pays_decode_registry)

text \<open>P holds of every event the emit of an upload of totalSize bytes can send.\<close>
definition fits :: "nat \<Rightarrow> (cdn_log \<Rightarrow> bool) \<Rightarrow> bool" where
  "fits totalSize P = ((\<forall>m t c. P (upload_log totalSize m t c)) \<and> (\<forall>m a. P (Done m a)))"

lemma pays_upload_emit: "fits n P \<Longrightarrow> always (pays P) (upload_emit n m t c)"
  by (simp add: upload_emit_log fits_def pays_emit_log)

lemma pays_push_chunks:
  "fits (length buffer) P \<Longrightarrow> always (pays P) (push_chunks path buffer is acc)"
proof (induction "is" arbitrary: acc)
  case Nil
  show ?case unfolding push_chunks_Nil by (intro pays_intros)
next
  case (Cons i rest)
  show ?case unfolding push_chunks_Cons
    by (intro pays_intros pays_upload_emit Cons)
qed

lemma pays_upload_stage:
  "fits (length buffer) P \<Longrightarrow> always (pays P) (upload_stage cfg st name type buffer)"
  unfolding upload_stage_def Let_def
  by (intro pays_intros pays_upload_emit pays_push_chunks pays_list_assets)

lemma pays_upload_publish:
  "fits n P \<Longrightarrow> always (pays P) (upload_publish n r)"
  unfolding upload_publish_def
  by (cases r) (auto intro!: pays_intros pays_upload_emit pays_emit_log simp: fits_def)

lemma pays_upload:
  assumes "\<And>name type buffer. resolve_input st input = Some (name, type, buffer) \<Longrightarrow> fits (length buffer) P"
  shows "always (pays P) (upload cfg st input)"
  unfolding upload_def using assms
  by (auto split: option.splits intro!: pays_intros pays_upload_stage pays_upload_publish)

lemma emits_await_now:
  assumes "on_success (emits l) m" "\<And>x. always (pays (\<lambda>_. True)) (f x)"
  shows "on_success (emits l) (await m f)"
  using assms unfolding on_success_def always_def await_Inr
  by (blast intro: emits_pays)

lemma emits_await_later:
  assumes "always (pays (\<lambda>_. True)) m" "\<And>x. on_success (emits l) (f x)"
  shows "on_success (emits l) (await m f)"
  using assms unfolding on_success_def always_def await_Inr
  by (blast intro: pays_emits)

lemma fits_True: "fits n (\<lambda>_. True)"
  by (simp add: fits_def)

lemma emits_push_chunks:
  "i \<in> set is \<Longrightarrow>
   on_success
     (emits (upload_log (length buffer)
        (''Pushing chunk '' @ dec (i + 1) @ ''/'' @ dec (totalChunks (length buffer)) @ ''...'')
        Process (Some (i + 1))))
     (push_chunks path buffer is acc)"
proof (induction "is" arbitrary: acc)
  case Nil
  then show ?case by simp
next
  case (Cons j rest)
  show ?case
  proof (cases "i = j")
    case True
    show ?thesis unfolding push_chunks_Cons True upload_emit_log
      by (intro emits_await_now emits_emit_log pays_intros pays_push_chunks fits_True)
  next
    case False
    with Cons.prems have "i \<in> set rest" by simp
    then show ?thesis unfolding push_chunks_Cons
      by (intro emits_await_later Cons.IH pays_intros pays_upload_emit fits_True)
  qed
qed

lemma emits_upload_stage:
  "i < totalChunks (length buffer) \<Longrightarrow>
   on_success
     (emits (upload_log (length buffer)
        (''Pushing chunk '' @ dec (i + 1) @ ''/'' @ dec (totalChunks (length buffer)) @ ''...'')
        Process (Some (i + 1))))
     (upload_stage cfg st name type buffer)"
  unfolding upload_stage_def Let_def
  apply (rule emits_await_later)
   apply (intro pays_upload_emit fits_True)
  apply (rule emits_await_later)
   apply (intro pays_intros)
  apply (rule emits_await_now)
   apply (rule emits_push_chunks)
   apply simp
  apply (intro pays_intros pays_upload_emit pays_list_assets fits_True)
  done


lemma emits_upload:
  assumes "resolve_input st input = Some (name, type, buffer)" "i < totalChunks (length buffer)"
  shows "on_success
     (emits (upload_log (length buffer)
        (''Pushing chunk '' @ dec (i + 1) @ ''/'' @ dec (totalChunks (length buffer)) @ ''...'')
        Process (Some (i + 1))))
     (upload cfg st input)"
proof -
  have "on_success
     (emits (upload_log (length buffer)
        (''Pushing chunk '' @ dec (i + 1) @ ''/'' @ dec (totalChunks (length buffer)) @ ''...'')
        Process (Some (i + 1))))
     (await (upload_stage cfg st name type buffer) (upload_publish (length buffer)))"
    using assms(2) by (intro emits_await_now emits_upload_stage pays_upload_publish fits_True)
  then show ?thesis
    by (simp only: upload_def assms(1) option.case prod.case)
qed

lemma last_chunk_overshoot:
  assumes "length buffer mod CHUNK_SIZE \<noteq> 0"
  shows "length buffer < totalChunks (length buffer) * CHUNK_SIZE"
proof -
  have "length buffer \<le> totalChunks (length buffer) * CHUNK_SIZE"
    using totalChunks_bounds by blast
  moreover have "length buffer \<noteq> totalChunks (length buffer) * CHUNK_SIZE"
    using assms by (metis mod_mult_self2_is_0)
  ultimately show ?thesis by simp
qed

text \<open>C10. Every progress payload that upload sends has loaded = currentChunk * 5242880
  (and total = the size of the buffer). So when the size is no multiple of 5242880,
  every payload with currentChunk = totalChunks reports loaded > total; an upload that
  succeeds has sent such a payload, the one of the last chunk.\<close>
theorem C10_progress_loaded:
  "upload cfg st input w = (r, w') \<Longrightarrow>
   \<exists>u. updates w' = updates w @ u
     \<and> (\<forall>msg t p. Log msg t (Some p) \<in> set u \<longrightarrow> p_loaded p = p_currentChunk p * 5242880)
     \<and> (\<forall>name type buffer.
           resolve_input st input = Some (name, type, buffer) \<and> length buffer mod 5242880 \<noteq> 0 \<longrightarrow>
           (\<forall>msg t p. Log msg t (Some p) \<in> set u \<and> p_currentChunk p = totalChunks (length buffer) \<longrightarrow>
                p_total p = length buffer \<and> p_total p < p_loaded p)
         \<and> (\<forall>a. r = Inr a \<longrightarrow>
                (\<exists>p. Log (''Pushing chunk '' @ dec (totalChunks (length buffer)) @ ''/''
                            @ dec (totalChunks (length buffer)) @ ''...'') Process (Some p) \<in> set u
                     \<and> p_currentChunk p = totalChunks (length buffer) \<and> p_total p < p_loaded p)))"
proof -
  assume up: "upload cfg st input w = (r, w')"
  define P where "P = (\<lambda>l. \<forall>msg t p. l = Log msg t (Some p) \<longrightarrow>
      p_loaded p = p_currentChunk p * CHUNK_SIZE
      \<and> (\<forall>name type buffer. resolve_input st input = Some (name, type, buffer) \<longrightarrow> p_total p = length buffer))"
  have "fits (length buffer) P" if "resolve_input st input = Some (name, type, buffer)" for name type buffer
    using that by (auto simp: fits_def P_def upload_log_def split: option.splits)
  then have "always (pays P) (upload cfg st input)" by (rule pays_upload)
  then have "pays P w w'" using up by (rule always_D)
  then obtain u where u: "updates w' = updates w @ u" and all: "list_all P u"
    by (auto simp: pays_def)
  have pl: "p_loaded p = p_currentChunk p * CHUNK_SIZE" if "Log msg t (Some p) \<in> set u" for msg t p
    using all that by (auto simp: list_all_iff P_def)
  have pt: "p_total p = length buffer"
    if "Log msg t (Some p) \<in> set u" "resolve_input st input = Some (name, type, buffer)"
    for msg t p name type buffer
    using all that by (auto simp: list_all_iff P_def)
  show ?thesis
  proof (intro exI [of _ u] conjI allI impI)
    show "updates w' = updates w @ u" by (rule u)
  next
    fix msg t p assume "Log msg t (Some p) \<in> set u"
    then show "p_loaded p = p_currentChunk p * 5242880"
      using pl by (simp add: CHUNK_SIZE_def)
  next
    fix name type buffer msg t p
    assume h: "resolve_input st input = Some (name, type, buffer) \<and> length buffer mod 5242880 \<noteq> 0"
      and m: "Log msg t (Some p) \<in> set u \<and> p_currentChunk p = totalChunks (length buffer)"
    show "p_total p = length buffer" using pt h m by blast
    have "length buffer < totalChunks (length buffer) * CHUNK_SIZE"
      using h by (intro last_chunk_overshoot) (simp add: CHUNK_SIZE_def)
    then show "p_total p < p_loaded p"
      using pt [of msg t p name type buffer] pl [of msg t p] h m by simp
  next
    fix name type buffer a
    assume h: "resolve_input st input = Some (name, type, buffer) \<and> length buffer mod 5242880 \<noteq> 0"
      and ok: "r = Inr a"
    let ?n = "totalChunks (length buffer)"
    have over: "length buffer < ?n * CHUNK_SIZE"
      using h by (intro last_chunk_overshoot) (simp add: CHUNK_SIZE_def)
    then have pos: "?n - 1 < ?n" by (cases ?n) simp_all
    have "on_success (emits (upload_log (length buffer)
        (''Pushing chunk '' @ dec (?n - 1 + 1) @ ''/'' @ dec ?n @ ''...'')
        Process (Some (?n - 1 + 1)))) (upload cfg st input)"
      using h pos by (intro emits_upload) simp_all
    moreover have "?n - 1 + 1 = ?n" using pos by simp
    ultimately have "emits (upload_log (length buffer)
        (''Pushing chunk '' @ dec ?n @ ''/'' @ dec ?n @ ''...'') Process (Some ?n)) w w'"
      using up ok by (simp add: on_success_def)
    then have "upload_log (length buffer)
        (''Pushing chunk '' @ dec ?n @ ''/'' @ dec ?n @ ''...'') Process (Some ?n) \<in> set u"
      using u by (auto simp: emits_def)
    then show "\<exists>p. Log (''Pushing chunk '' @ dec ?n @ ''/'' @ dec ?n @ ''...'') Process (Some p) \<in> set u
                     \<and> p_currentChunk p = ?n \<and> p_total p < p_loaded p"
      using over by (auto simp: upload_log_def)
  qed
qed


text \<open>A one-byte file to upload into it.\<close>
definition stamp0 :: stamp where
  "stamp0 = \<lparr>s_nowMs = 1737720000000, s_uniqueId = ''abc123_k1'', s_year = 2026, s_month = 1,
             s_iso = ''2026-01-24T12:00:00.000Z''\<rparr>"

definition input0 :: upload_input where
  "input0 = FileInput ''a b.bin'' ''application/octet-stream'' [7]"

lemma totalChunks_1: "totalChunks (Suc 0) = Suc 0"
  by (simp add: totalChunks_def CHUNK_SIZE_def)

lemmas run_defs =
  upload_def resolve_input_def upload_stage_def upload_publish_def Let_def await_def
  upload_emit_def emit_log_def emit_def request_def srv_get_ref_def srv_get_tree_def srv_get_blob_def
  srv_get_contents_def srv_post_blob_def srv_post_tree_def srv_post_commit_def srv_patch_ref_def
  store_obj_def lookup_def listing_def tree_of_def is_tree_def is_commit_def
  list_assets_def try_catch_def decode_registry_def ret_def throw_def
  blob_item_def dirs_registry totalChunks_1

lemma upload_run0:
  "fst (upload cfg0 stamp0 input0 world0)
     = Inr (build_asset cfg0 stamp0 ''a b.bin'' ''application/octet-stream'' 1 (upload_path stamp0 ''a b.bin''))
   \<and> head (snd (upload cfg0 stamp0 input0 world0)) = Some 7
   \<and> history (snd (upload cfg0 stamp0 input0 world0))
       = [(GetRef, True), (PostBlob, True), (PostBlob, True), (GetContents, True), (PostBlob, True),
          (PostTree, True), (PostCommit, True), (PatchRef, True)]"
  by (simp add: run_defs world0_def input0_def)


theorem C10_progress_loaded_witness:
  "\<exists>p. Log (''Pushing chunk '' @ dec 1 @ ''/'' @ dec 1 @ ''...'') Process (Some p)
          \<in> set (updates (snd (upload cfg0 stamp0 input0 world0)))
       \<and> p_currentChunk p = 1 \<and> p_loaded p = 5242880 \<and> p_total p < p_loaded p"
proof -
  let ?r = "fst (upload cfg0 stamp0 input0 world0)"
  let ?w = "snd (upload cfg0 stamp0 input0 world0)"
  have run: "upload cfg0 stamp0 input0 world0 = (?r, ?w)" by simp
  have ri: "resolve_input stamp0 input0 = Some (''a b.bin'', ''application/octet-stream'', [7])
            \<and> length [7::byte] mod 5242880 \<noteq> 0"
    by (simp add: resolve_input_def input0_def)
  have ok: "?r = Inr (build_asset cfg0 stamp0 ''a b.bin'' ''application/octet-stream'' 1
                        (upload_path stamp0 ''a b.bin''))"
    using upload_run0 by simp
  from C10_progress_loaded [OF run] obtain u where
    u: "updates ?w = updates world0 @ u"
    and l: "\<forall>msg t p. Log msg t (Some p) \<in> set u \<longrightarrow> p_loaded p = p_currentChunk p * 5242880"
    and f: "\<forall>name type buffer.
           resolve_input stamp0 input0 = Some (name, type, buffer) \<and> length buffer mod 5242880 \<noteq> 0 \<longrightarrow>
           (\<forall>msg t p. Log msg t (Some p) \<in> set u \<and> p_currentChunk p = totalChunks (length buffer) \<longrightarrow>
                p_total p = length buffer \<and> p_total p < p_loaded p)
         \<and> (\<forall>a. ?r = Inr a \<longrightarrow>
                (\<exists>p. Log (''Pushing chunk '' @ dec (totalChunks (length buffer)) @ ''/''
                            @ dec (totalChunks (length buffer)) @ ''...'') Process (Some p) \<in> set u
                     \<and> p_currentChunk p = totalChunks (length buffer) \<and> p_total p < p_loaded p))"
    by blast
  from f ri ok obtain p where
    p: "Log (''Pushing chunk '' @ dec (totalChunks (length [7::byte])) @ ''/''
              @ dec (totalChunks (length [7::byte])) @ ''...'') Process (Some p) \<in> set u"
       "p_currentChunk p = totalChunks (length [7::byte])" "p_total p < p_loaded p"
    by blast
  have e: "updates ?w = u" using u by (simp add: world0_def)
  have "p_loaded p = p_currentChunk p * 5242880" using l p(1) by blast
  then show ?thesis
    using p e by (auto simp: totalChunks_1 intro!: exI [of _ p])
qed


section \<open>The requests a pipeline sends\<close>

text \<open>From w to w' some more requests were sent, all of which satisfy P.\<close>
definition sends :: "(endpoint \<times> bool \<Rightarrow> bool) \<Rightarrow> world \<Rightarrow> world \<Rightarrow> bool" where
  "sends P w w' = (\<exists>h. history w' = history w @ h \<and> list_all P h)"

lemma sends_refl: "sends P w w" by (simp add: sends_def)

lemma sends_trans: "sends P a b \<Longrightarrow> sends P b c \<Longrightarrow> sends P a c"
  by (auto simp: sends_def)

lemma sends_emit_log: "always (sends P) (emit_log l)"
  by (simp add: always_def emit_log_def sends_def)

lemma sends_store_obj: "always (sends P) (store_obj ob)"
  by (auto simp: always_def store_obj_def sends_def)

lemma sends_srv_get_ref: "always (sends P) srv_get_ref"
  by (auto simp: always_def srv_get_ref_def sends_refl split: option.splits)

lemma sends_srv_get_tree: "always (sends P) (srv_get_tree s)"
  by (auto simp: always_def srv_get_tree_def sends_refl split: option.splits)

lemma sends_srv_get_blob: "always (sends P) (srv_get_blob s)"
  by (auto simp: always_def srv_get_blob_def sends_refl split: option.splits obj.splits)

lemma sends_srv_get_contents: "always (sends P) (srv_get_contents p)"
  using sends_srv_get_blob [of P]
  by (auto simp: always_def srv_get_contents_def sends_refl split: option.splits)

lemma sends_srv_post_blob: "always (sends P) (srv_post_blob c)"
  by (simp add: srv_post_blob_def sends_store_obj)

lemma sends_srv_post_tree: "always (sends P) (srv_post_tree base items)"
  using sends_store_obj [of P]
  by (auto simp: always_def srv_post_tree_def sends_refl split: option.splits)

lemma sends_srv_post_commit: "always (sends P) (srv_post_commit msg t ps)"
  using sends_store_obj [of P]
  by (auto simp: always_def srv_post_commit_def sends_refl split: if_splits)

lemma sends_srv_patch_ref: "always (sends P) (srv_patch_ref s)"
  by (auto simp: always_def srv_patch_ref_def sends_def split: option.splits obj.splits if_splits)

lemma sends_request:
  "always (sends P) serve \<Longrightarrow> P (ep, True) \<Longrightarrow> P (ep, False) \<Longrightarrow> always (sends P) (request ep serve)"
  unfolding always_def request_def Let_def
  by (auto simp: sends_def split: if_splits) fastforce

lemma sends_request_ok:
  "always (sends P) serve \<Longrightarrow> P (ep, True) \<Longrightarrow> on_success (sends P) (request ep serve)"
  unfolding always_def on_success_def request_def Let_def
  by (auto simp: sends_def split: if_splits) fastforce

lemma sends_await:
  "always (sends P) m \<Longrightarrow> (\<And>x. always (sends P) (f x)) \<Longrightarrow> always (sends P) (await m f)"
  by (rule always_await) (blast intro: sends_trans)+

lemma sends_try_catch:
  "always (sends P) m \<Longrightarrow> (\<And>e. always (sends P) (h e)) \<Longrightarrow> always (sends P) (try_catch m h)"
  by (rule always_try_catch) (blast intro: sends_trans)+

lemma sends_ret: "always (sends P) (ret x)"
  by (rule always_ret) (rule sends_refl)

lemma sends_throw: "always (sends P) (throw e)"
  by (rule always_throw) (rule sends_refl)

lemma sends_await_ok:
  "on_success (sends P) m \<Longrightarrow> (\<And>x. on_success (sends P) (f x)) \<Longrightarrow> on_success (sends P) (await m f)"
  by (rule on_success_await) (blast intro: sends_trans)+

lemma sends_ret_ok: "on_success (sends P) (ret x)"
  by (rule on_success_ret) (rule sends_refl)

lemmas sends_srv =
  sends_srv_get_ref sends_srv_get_tree sends_srv_get_blob sends_srv_get_contents
  sends_srv_post_blob sends_srv_post_tree sends_srv_post_commit sends_srv_patch_ref

lemma sends_decode_registry: "always (sends P) (decode_registry c)"
  by (cases c) (simp_all add: decode_registry_def sends_ret sends_throw)

lemma sends_decode_manifest: "always (sends P) (decode_manifest c)"
  by (cases c) (simp_all add: decode_manifest_def sends_ret sends_throw)

lemma sends_list_assets:
  "P (GetContents, True) \<Longrightarrow> P (GetContents, False) \<Longrightarrow> always (sends P) (list_assets cfg)"
  unfolding list_assets_def
  by (intro sends_try_catch sends_await sends_request sends_srv sends_decode_registry sends_ret)

lemma sends_upload_emit: "always (sends P) (upload_emit n m t c)"
  by (simp add: upload_emit_def sends_emit_log)

lemma sends_emit: "always (sends P) (emit m t)"
  by (simp add: emit_def sends_emit_log)

text \<open>Every request was answered, but for reads of the registry through list.\<close>
definition answered :: "endpoint \<times> bool \<Rightarrow> bool" where
  "answered q = (snd q \<or> fst q = GetContents)"

lemmas sends_ok_intros =
  sends_await_ok sends_ret_ok on_success_throw sends_request_ok sends_srv
  always_on_success [OF sends_upload_emit] always_on_success [OF sends_emit]
  always_on_success [OF sends_emit_log]
  always_on_success [OF sends_decode_registry] always_on_success [OF sends_decode_manifest]

lemma answered_push_chunks: "on_success (sends answered) (push_chunks path buffer is acc)"
proof (induction "is" arbitrary: acc)
  case Nil
  show ?case unfolding push_chunks_Nil by (rule sends_ret_ok)
next
  case (Cons i rest)
  show ?case unfolding push_chunks_Cons
    by (intro sends_ok_intros Cons) (simp add: answered_def)
qed

lemma answered_list_assets: "on_success (sends answered) (list_assets cfg)"
  by (intro always_on_success sends_list_assets) (simp_all add: answered_def)

lemma answered_upload_stage: "on_success (sends answered) (upload_stage cfg st name type buffer)"
  unfolding upload_stage_def Let_def
  by (intro sends_ok_intros answered_push_chunks answered_list_assets) (simp_all add: answered_def)

lemma answered_upload_publish: "on_success (sends answered) (upload_publish n r)"
  unfolding upload_publish_def
  by (cases r) (auto intro!: sends_ok_intros simp: answered_def)

lemma answered_upload: "on_success (sends answered) (upload cfg st input)"
  unfolding upload_def
  by (auto split: option.splits intro!: sends_ok_intros answered_upload_stage answered_upload_publish)

lemma sends_any_push_chunks: "always (sends (\<lambda>_. True)) (push_chunks path buffer is acc)"
proof (induction "is" arbitrary: acc)
  case Nil
  show ?case unfolding push_chunks_Nil by (rule sends_ret)
next
  case (Cons i rest)
  show ?case unfolding push_chunks_Cons
    by (intro sends_await sends_request sends_srv sends_upload_emit Cons) simp_all
qed

lemma sends_any_upload: "always (sends (\<lambda>_. True)) (upload cfg st input)"
  unfolding upload_def upload_stage_def upload_publish_def Let_def
  by (auto split: option.splits prod.splits
        intro!: sends_await sends_request sends_srv sends_upload_emit sends_any_push_chunks
                sends_list_assets sends_ret sends_throw sends_emit_log)

section \<open>A failed pipeline leaves the branch alone\<close>

text \<open>The head names an object of the store, and so does the tree of every commit; the
  entries a tree object keeps are blob entries.\<close>
definition well_formed :: "world \<Rightarrow> bool" where
  "well_formed w =
     ((case head w of None \<Rightarrow> True | Some h \<Rightarrow> h < length (objects w))
      \<and> list_all (\<lambda>ob. case ob of
                         Commit msg t ps \<Rightarrow> t < length (objects w)
                       | Tree es \<Rightarrow> list_all (\<lambda>e. e_type e = ''blob'') es
                       | Blob c \<Rightarrow> True) (objects w))"

lemma grows_lookup_eq:
  "grows w w' \<Longrightarrow> s < length (objects w) \<Longrightarrow> lookup w' s = lookup w s"
  by (auto simp: grows_def lookup_def prefix_def nth_append)

lemma grows_listing:
  assumes "grows w w'" "well_formed w" "s < length (objects w)"
  shows "listing w' s = listing w s"
proof -
  have l: "lookup w' s = lookup w s" using assms(1,3) by (rule grows_lookup_eq)
  have "tree_of w' s = tree_of w s"
  proof (cases "lookup w s")
    case None
    then show ?thesis using l by (simp add: tree_of_def)
  next
    case (Some ob)
    show ?thesis
    proof (cases ob)
      case (Commit msg t ps)
      have "ob \<in> set (objects w)" using Some by (auto simp: lookup_def split: if_splits)
      then have "t < length (objects w)"
        using assms(2) Commit by (auto simp: well_formed_def list_all_iff)
      then have "lookup w' t = lookup w t" using assms(1) by (intro grows_lookup_eq)
      then show ?thesis using l Some Commit by (simp add: tree_of_def)
    qed (use l Some in \<open>simp_all add: tree_of_def\<close>)
  qed
  then show ?thesis by (simp add: listing_def)
qed

lemma patch_ref_fail:
  "request PatchRef (srv_patch_ref c) w = (Inl e, w') \<Longrightarrow> grows w w'"
  by (auto simp: request_def Let_def srv_patch_ref_def grows_def
           split: if_splits option.splits obj.splits)

lemma upload_publish_fail:
  assumes "upload_publish n x w = (Inl e, w')"
  shows "grows w w'"
proof -
  obtain c a where x: "x = (c, a)" by (cases x)
  have "request PatchRef (srv_patch_ref c) w = (Inl e, w')"
    using assms unfolding x upload_publish_def
    by (auto simp: await_Inl upload_emit_def emit_log_def ret_def)
  then show ?thesis by (rule patch_ref_fail)
qed

lemma upload_fail:
  assumes "upload cfg st input w = (Inl e, w')"
  shows "grows w w'"
proof (cases "resolve_input st input")
  case None
  with assms show ?thesis by (simp add: upload_def throw_def grows_refl)
next
  case (Some t)
  obtain name type buffer where t: "t = (name, type, buffer)" by (cases t)
  from assms Some t
  have "await (upload_stage cfg st name type buffer) (upload_publish (length buffer)) w = (Inl e, w')"
    by (simp add: upload_def)
  then consider "upload_stage cfg st name type buffer w = (Inl e, w')"
    | x w1 where "upload_stage cfg st name type buffer w = (Inr x, w1)"
        "upload_publish (length buffer) x w1 = (Inl e, w')"
    unfolding await_Inl by blast
  then show ?thesis
  proof cases
    case 1
    with grows_upload_stage show ?thesis by (rule always_D)
  next
    case 2
    from grows_upload_stage 2(1) have "grows w w1" by (rule always_D)
    moreover from 2(2) have "grows w1 w'" by (rule upload_publish_fail)
    ultimately show ?thesis by (rule grows_trans)
  qed
qed

text \<open>C2 (as amended). When a request of an upload other than the read of the registry
  fails (the read of the head, a chunk write, the manifest write, the registry write,
  the creation of the tree or of the commit, or the update of the branch itself), upload
  throws, the head of the branch is what it was, the objects that were there are
  untouched and the tree listed from the head is the same. A failed read of the registry
  is not among them: list() turns it into an empty registry and the upload goes on.\<close>
theorem C2_upload_fail_fast:
  "well_formed w \<Longrightarrow> upload cfg st input w = (r, w') \<Longrightarrow>
   \<exists>h. history w' = history w @ h
     \<and> ((\<exists>ep. (ep, False) \<in> set h \<and> ep \<noteq> GetContents) \<longrightarrow>
          (\<exists>e. r = Inl e) \<and> head w' = head w \<and> prefix (objects w) (objects w')
          \<and> (\<forall>h0. head w = Some h0 \<longrightarrow> listing w' h0 = listing w h0))"
proof -
  assume wf: "well_formed w" and up: "upload cfg st input w = (r, w')"
  from sends_any_upload up have "sends (\<lambda>_. True) w w'" by (rule always_D)
  then obtain h where h: "history w' = history w @ h" by (auto simp: sends_def)
  have "(\<exists>e. r = Inl e) \<and> head w' = head w \<and> prefix (objects w) (objects w')
          \<and> (\<forall>h0. head w = Some h0 \<longrightarrow> listing w' h0 = listing w h0)"
    if bad: "\<exists>ep. (ep, False) \<in> set h \<and> ep \<noteq> GetContents"
  proof -
    have "\<exists>e. r = Inl e"
    proof (cases r)
      case (Inr a)
      with answered_upload up have "sends answered w w'" by (auto simp: on_success_def)
      with h have "list_all answered h" by (auto simp: sends_def)
      with bad show ?thesis by (auto simp: list_all_iff answered_def)
    qed simp
    then obtain e where e: "r = Inl e" by blast
    with up have g: "grows w w'" by (auto intro: upload_fail)
    have "listing w' h0 = listing w h0" if "head w = Some h0" for h0
      using g wf
    proof (rule grows_listing)
      show "h0 < length (objects w)" using wf that by (simp add: well_formed_def)
    qed
    with e g show ?thesis by (auto simp: grows_def)
  qed
  with h show ?thesis by blast
qed



lemma well_formed_world0: "well_formed (world0\<lparr>fails := f\<rparr>)"
  by (simp add: well_formed_def world0_def blob_item_def)

text \<open>A store request before the update of the branch that throws without stopping the
  upload: the fourth request, the read of registry.json inside list(), fails; upload
  returns the asset all the same, the head moves from commit 2 to commit 7, and the
  registry it publishes holds the new asset alone.\<close>
theorem C2_registry_read_counterexample:
  "history (snd (upload cfg0 stamp0 input0 (world0\<lparr>fails := (\<lambda>k. k = 3)\<rparr>)))
     = [(GetRef, True), (PostBlob, True), (PostBlob, True), (GetContents, False), (PostBlob, True),
        (PostTree, True), (PostCommit, True), (PatchRef, True)]
   \<and> fst (upload cfg0 stamp0 input0 (world0\<lparr>fails := (\<lambda>k. k = 3)\<rparr>))
     = Inr (build_asset cfg0 stamp0 ''a b.bin'' ''application/octet-stream'' 1 (upload_path stamp0 ''a b.bin''))
   \<and> head (world0\<lparr>fails := (\<lambda>k. k = 3)\<rparr>) = Some 2
   \<and> head (snd (upload cfg0 stamp0 input0 (world0\<lparr>fails := (\<lambda>k. k = 3)\<rparr>))) = Some 7
   \<and> lookup (snd (upload cfg0 stamp0 input0 (world0\<lparr>fails := (\<lambda>k. k = 3)\<rparr>))) 5
     = Some (Blob (RegistryDoc
         [build_asset cfg0 stamp0 ''a b.bin'' ''application/octet-stream'' 1 (upload_path stamp0 ''a b.bin'')]))"
  by (simp add: run_defs world0_def input0_def)

theorem C2_upload_fail_fast_witness:
  "history (snd (upload cfg0 stamp0 input0 (world0\<lparr>fails := (\<lambda>k. k = 1)\<rparr>)))
     = [(GetRef, True), (PostBlob, False)]
   \<and> fst (upload cfg0 stamp0 input0 (world0\<lparr>fails := (\<lambda>k. k = 1)\<rparr>)) = Inl (ApiError 500)
   \<and> head (snd (upload cfg0 stamp0 input0 (world0\<lparr>fails := (\<lambda>k. k = 1)\<rparr>))) = Some 2
   \<and> listing (snd (upload cfg0 stamp0 input0 (world0\<lparr>fails := (\<lambda>k. k = 1)\<rparr>))) 2
     = listing (world0\<lparr>fails := (\<lambda>k. k = 1)\<rparr>) 2"
proof -
  let ?w = "world0\<lparr>fails := (\<lambda>k. k = 1)\<rparr>"
  let ?r = "fst (upload cfg0 stamp0 input0 ?w)"
  let ?w' = "snd (upload cfg0 stamp0 input0 ?w)"
  have run: "upload cfg0 stamp0 input0 ?w = (?r, ?w')" by simp
  have hist: "history ?w' = [(GetRef, True), (PostBlob, False)]"
    and res: "?r = Inl (ApiError 500)"
    by (simp_all add: run_defs world0_def input0_def)
  have h0: "history ?w = []" and hd: "head ?w = Some 2" by (simp_all add: world0_def)
  from C2_upload_fail_fast [OF well_formed_world0 run] obtain h where
    h: "history ?w' = history ?w @ h"
    and c: "(\<exists>ep. (ep, False) \<in> set h \<and> ep \<noteq> GetContents) \<longrightarrow>
          (\<exists>e. ?r = Inl e) \<and> head ?w' = head ?w \<and> prefix (objects ?w) (objects ?w')
          \<and> (\<forall>h0. head ?w = Some h0 \<longrightarrow> listing ?w' h0 = listing ?w h0)"
    by blast
  from h hist h0 have "h = [(GetRef, True), (PostBlob, False)]" by simp
  then have "(PostBlob, False) \<in> set h \<and> PostBlob \<noteq> GetContents" by simp
  with c have "head ?w' = head ?w \<and> (\<forall>h0. head ?w = Some h0 \<longrightarrow> listing ?w' h0 = listing ?w h0)"
    by blast
  with hd have "head ?w' = Some 2 \<and> listing ?w' 2 = listing ?w 2" by simp
  with hist res show ?thesis by simp
qed


section \<open>The commit a pipeline builds\<close>

lemma get_ref_Inr: "request GetRef srv_get_ref w = (Inr b, w') \<Longrightarrow> head w = Some b"
  by (auto simp: request_def Let_def srv_get_ref_def split: if_splits option.splits)

lemma post_commit_Inr:
  "request PostCommit (srv_post_commit msg t ps) w = (Inr c, w') \<Longrightarrow>
     lookup w' c = Some (Commit msg t ps)"
  by (auto simp: request_def Let_def srv_post_commit_def store_obj_def lookup_def split: if_splits)

lemma emit_log_head: "emit_log l w = (r, w') \<Longrightarrow> head w' = head w"
  by (auto simp: emit_log_def)

lemma upload_stage_commit:
  assumes "upload_stage cfg st name type buffer w = (Inr (c, a), w1)"
  shows "\<exists>msg t b. head w = Some b \<and> lookup w1 c = Some (Commit msg t [b])"
  using assms unfolding upload_stage_def Let_def await_Inr upload_emit_def
  by (auto simp: ret_def dest!: get_ref_Inr post_commit_Inr emit_log_head)

lemma delete_stage_commit:
  assumes "delete_stage ident folderPath w = (Inr c, w1)"
  shows "\<exists>msg t b. head w = Some b \<and> lookup w1 c = Some (Commit msg t [b])"
  using assms
  by (auto simp: delete_stage_def Let_def await_Inr emit_def ret_def throw_def
           split: option.splits dest!: get_ref_Inr post_commit_Inr emit_log_head)

lemma prefix_lookup:
  "prefix (objects w) (objects w') \<Longrightarrow> lookup w s = Some ob \<Longrightarrow> lookup w' s = Some ob"
  by (auto simp: lookup_def prefix_def nth_append split: if_splits)

lemma patch_ref_conflict:
  assumes "lookup w c = Some (Commit msg t [b])" "head w \<noteq> Some b" "\<not> fails w (length (history w))"
  shows "request PatchRef (srv_patch_ref c) w
           = (Inl (ApiError 422), w\<lparr>history := history w @ [(PatchRef, True)]\<rparr>)"
  using assms
  by (auto simp: request_def Let_def srv_patch_ref_def lookup_def split: option.splits)

text \<open>C4. The commit that upload or delete has built names the head read in step 1 as
  its only parent, and the update of the branch is sent without force. So when the head
  of the branch is no longer that commit at the time of the update (other writers may
  have added objects and moved the head), the update is rejected with status 422, which
  the pipeline throws, and head and objects of the store stay as the other writer left
  them.\<close>
theorem C4_publish_conflict:
  "(upload_stage cfg st name type buffer w = (Inr x, w1)
      \<and> prefix (objects w1) (objects w2) \<and> head w2 \<noteq> head w \<and> \<not> fails w2 (length (history w2))
    \<longrightarrow> (\<exists>w3. upload_publish (length buffer) x w2 = (Inl (ApiError 422), w3)
              \<and> head w3 = head w2 \<and> objects w3 = objects w2))
   \<and> (delete_stage ident folderPath w = (Inr c, w1)
      \<and> prefix (objects w1) (objects w2) \<and> head w2 \<noteq> head w \<and> \<not> fails w2 (length (history w2))
    \<longrightarrow> (\<exists>w3. delete_publish c w2 = (Inl (ApiError 422), w3)
              \<and> head w3 = head w2 \<and> objects w3 = objects w2))"
proof (intro conjI impI)
  assume a: "upload_stage cfg st name type buffer w = (Inr x, w1)
      \<and> prefix (objects w1) (objects w2) \<and> head w2 \<noteq> head w \<and> \<not> fails w2 (length (history w2))"
  obtain cm a' where x: "x = (cm, a')" by (cases x)
  from a x obtain msg t b where b: "head w = Some b" "lookup w1 cm = Some (Commit msg t [b])"
    using upload_stage_commit by blast
  from a b(2) have "lookup w2 cm = Some (Commit msg t [b])" by (blast intro: prefix_lookup)
  moreover from a b(1) have "head w2 \<noteq> Some b" by simp
  ultimately have "request PatchRef (srv_patch_ref cm) w2
           = (Inl (ApiError 422), w2\<lparr>history := history w2 @ [(PatchRef, True)]\<rparr>)"
    using a by (intro patch_ref_conflict) simp_all
  then have "upload_publish (length buffer) x w2
           = (Inl (ApiError 422), w2\<lparr>history := history w2 @ [(PatchRef, True)]\<rparr>)"
    by (simp add: upload_publish_def x await_def)
  then show "\<exists>w3. upload_publish (length buffer) x w2 = (Inl (ApiError 422), w3)
              \<and> head w3 = head w2 \<and> objects w3 = objects w2"
    by simp
next
  assume a: "delete_stage ident folderPath w = (Inr c, w1)
      \<and> prefix (objects w1) (objects w2) \<and> head w2 \<noteq> head w \<and> \<not> fails w2 (length (history w2))"
  from a obtain msg t b where b: "head w = Some b" "lookup w1 c = Some (Commit msg t [b])"
    using delete_stage_commit by blast
  from a b(2) have "lookup w2 c = Some (Commit msg t [b])" by (blast intro: prefix_lookup)
  moreover from a b(1) have "head w2 \<noteq> Some b" by simp
  ultimately have "request PatchRef (srv_patch_ref c) w2
           = (Inl (ApiError 422), w2\<lparr>history := history w2 @ [(PatchRef, True)]\<rparr>)"
    using a by (intro patch_ref_conflict) simp_all
  then have "delete_publish c w2
           = (Inl (ApiError 422), w2\<lparr>history := history w2 @ [(PatchRef, True)]\<rparr>)"
    by (simp add: delete_publish_def await_def)
  then show "\<exists>w3. delete_publish c w2 = (Inl (ApiError 422), w3)
              \<and> head w3 = head w2 \<and> objects w3 = objects w2"
    by simp
qed


lemmas delete_run_defs =
  delete_stage_def delete_publish_def delete_asset_def prefix_code

theorem C4_publish_conflict_witness:
  "fst (upload_publish (length [7::byte])
          (7, build_asset cfg0 stamp0 ''a b.bin'' ''application/octet-stream'' 1 (upload_path stamp0 ''a b.bin''))
          ((snd (upload_stage cfg0 stamp0 ''a b.bin'' ''application/octet-stream'' [7] world0))
             \<lparr>objects := objects (snd (upload_stage cfg0 stamp0 ''a b.bin'' ''application/octet-stream'' [7] world0))
                           @ [Commit ''rival'' 1 [2]],
              head := Some 8\<rparr>))
     = Inl (ApiError 422)
   \<and> head (snd (upload_publish (length [7::byte])
          (7, build_asset cfg0 stamp0 ''a b.bin'' ''application/octet-stream'' 1 (upload_path stamp0 ''a b.bin''))
          ((snd (upload_stage cfg0 stamp0 ''a b.bin'' ''application/octet-stream'' [7] world0))
             \<lparr>objects := objects (snd (upload_stage cfg0 stamp0 ''a b.bin'' ''application/octet-stream'' [7] world0))
                           @ [Commit ''rival'' 1 [2]],
              head := Some 8\<rparr>)))
     = Some 8
   \<and> fst (delete_publish 5
          ((snd (delete_stage ''a0'' ''uploads/2026_01/a0_old.bin'' world0))
             \<lparr>objects := objects (snd (delete_stage ''a0'' ''uploads/2026_01/a0_old.bin'' world0))
                           @ [Commit ''rival'' 1 [2]],
              head := Some 6\<rparr>))
     = Inl (ApiError 422)
   \<and> head (snd (delete_publish 5
          ((snd (delete_stage ''a0'' ''uploads/2026_01/a0_old.bin'' world0))
             \<lparr>objects := objects (snd (delete_stage ''a0'' ''uploads/2026_01/a0_old.bin'' world0))
                           @ [Commit ''rival'' 1 [2]],
              head := Some 6\<rparr>)))
     = Some 6"
proof -
  let ?u = "upload_stage cfg0 stamp0 ''a b.bin'' ''application/octet-stream'' [7] world0"
  let ?x = "(7::nat, build_asset cfg0 stamp0 ''a b.bin'' ''application/octet-stream'' 1 (upload_path stamp0 ''a b.bin''))"
  let ?u2 = "(snd ?u)\<lparr>objects := objects (snd ?u) @ [Commit ''rival'' 1 [2]], head := Some 8\<rparr>"
  let ?d = "delete_stage ''a0'' ''uploads/2026_01/a0_old.bin'' world0"
  let ?d2 = "(snd ?d)\<lparr>objects := objects (snd ?d) @ [Commit ''rival'' 1 [2]], head := Some 6\<rparr>"
  have fu: "fst ?u = Inr ?x" and nu: "\<not> fails (snd ?u) (length (history (snd ?u)))"
    by (simp_all add: run_defs world0_def)
  have fd: "fst ?d = Inr 5" and nd: "\<not> fails (snd ?d) (length (history (snd ?d)))"
    by (simp_all add: run_defs delete_run_defs world0_def)
  have ru: "?u = (Inr ?x, snd ?u)" using fu by (metis prod.collapse)
  have rd: "?d = (Inr 5, snd ?d)" using fd by (metis prod.collapse)
  have hw: "head world0 = Some 2" by (simp add: world0_def)
  have "\<exists>w3. upload_publish (length [7::byte]) ?x ?u2 = (Inl (ApiError 422), w3)
              \<and> head w3 = head ?u2 \<and> objects w3 = objects ?u2"
  proof (rule C4_publish_conflict [THEN conjunct1, THEN mp])
    show "upload_stage cfg0 stamp0 ''a b.bin'' ''application/octet-stream'' [7] world0 = (Inr ?x, snd ?u)
      \<and> prefix (objects (snd ?u)) (objects ?u2) \<and> head ?u2 \<noteq> head world0
      \<and> \<not> fails ?u2 (length (history ?u2))"
      using ru nu hw by simp
  qed
  then obtain w3 where "upload_publish (length [7::byte]) ?x ?u2 = (Inl (ApiError 422), w3)"
      "head w3 = head ?u2"
    by blast
  then have a: "fst (upload_publish (length [7::byte]) ?x ?u2) = Inl (ApiError 422)"
      "head (snd (upload_publish (length [7::byte]) ?x ?u2)) = Some 8"
    by simp_all
  have "\<exists>w3. delete_publish 5 ?d2 = (Inl (ApiError 422), w3)
              \<and> head w3 = head ?d2 \<and> objects w3 = objects ?d2"
  proof (rule C4_publish_conflict [THEN conjunct2, THEN mp])
    show "delete_stage ''a0'' ''uploads/2026_01/a0_old.bin'' world0 = (Inr 5, snd ?d)
      \<and> prefix (objects (snd ?d)) (objects ?d2) \<and> head ?d2 \<noteq> head world0
      \<and> \<not> fails ?d2 (length (history ?d2))"
      using rd nd hw by simp
  qed
  then obtain w4 where "delete_publish 5 ?d2 = (Inl (ApiError 422), w4)" "head w4 = head ?d2"
    by blast
  then have b: "fst (delete_publish 5 ?d2) = Inl (ApiError 422)"
      "head (snd (delete_publish 5 ?d2)) = Some 6"
    by simp_all
  from a b show ?thesis by simp
qed


section \<open>What delete builds\<close>

lemma lookup_cong: "objects w = objects w' \<Longrightarrow> lookup w s = lookup w' s"
  by (simp add: lookup_def)

lemma listing_cong:
  assumes "objects w = objects w'"
  shows "listing w s = listing w' s"
proof -
  have l: "lookup w = lookup w'" using assms by (intro ext lookup_cong)
  have t: "tree_of w s = tree_of w' s" unfolding tree_of_def l by (rule refl)
  show ?thesis unfolding listing_def t by (rule refl)
qed

lemma listing_history: "listing (w\<lparr>history := h\<rparr>) s = listing w s"
  by (rule listing_cong) simp

lemma emit_log_objects: "emit_log l w = (r, w') \<Longrightarrow> objects w' = objects w"
  by (auto simp: emit_log_def)

lemma get_tree_Inr:
  "request GetTree (srv_get_tree s) w = (Inr l, w') \<Longrightarrow>
     listing w s = Some l \<and> objects w' = objects w \<and> head w' = head w"
  by (auto simp: request_def Let_def srv_get_tree_def listing_history
           split: if_splits option.splits)

lemma get_blob_Inr:
  "request GetBlob (srv_get_blob s) w = (Inr c, w') \<Longrightarrow>
     lookup w s = Some (Blob c) \<and> objects w' = objects w \<and> head w' = head w"
  by (auto simp: request_def Let_def srv_get_blob_def lookup_def split: if_splits option.splits obj.splits)

lemma get_ref_objects:
  "request GetRef srv_get_ref w = (Inr b, w') \<Longrightarrow> head w = Some b \<and> objects w' = objects w \<and> head w' = head w"
  by (auto simp: request_def Let_def srv_get_ref_def split: if_splits option.splits)

lemma post_blob_objects:
  "request PostBlob (srv_post_blob c) w = (Inr s, w') \<Longrightarrow>
     s = length (objects w) \<and> objects w' = objects w @ [Blob c] \<and> head w' = head w"
  by (auto simp: request_def Let_def srv_post_blob_def store_obj_def split: if_splits)

lemma post_tree_None_objects:
  "request PostTree (srv_post_tree None items) w = (Inr s, w') \<Longrightarrow>
     s = length (objects w) \<and> objects w' = objects w @ [Tree items] \<and> head w' = head w"
  by (auto simp: request_def Let_def srv_post_tree_def store_obj_def split: if_splits)

lemma post_commit_objects:
  "request PostCommit (srv_post_commit msg t ps) w = (Inr s, w') \<Longrightarrow>
     s = length (objects w) \<and> objects w' = objects w @ [Commit msg t ps] \<and> head w' = head w"
  by (auto simp: request_def Let_def srv_post_commit_def store_obj_def split: if_splits)

lemma decode_registry_Inr:
  "decode_registry c w = (Inr reg, w') \<Longrightarrow> c = RegistryDoc reg \<and> w' = w"
  by (cases c) (auto simp: decode_registry_def ret_def throw_def)

lemma patch_ref_Inr:
  "request PatchRef (srv_patch_ref c) w = (Inr u, w') \<Longrightarrow> head w' = Some c \<and> objects w' = objects w"
  by (auto simp: request_def Let_def srv_patch_ref_def split: if_splits option.splits obj.splits)

text \<open>The tree that delete sends (lines 294 and 308-313).\<close>
definition final_tree :: "string \<Rightarrow> sha \<Rightarrow> tree_entry list \<Rightarrow> tree_entry list" where
  "final_tree folderPath newReg treeData =
     map (\<lambda>i. if e_path i = ''registry.json''
              then \<lparr>e_path = e_path i, e_mode = e_mode i, e_type = e_type i, e_sha = newReg\<rparr>
              else \<lparr>e_path = e_path i, e_mode = e_mode i, e_type = e_type i, e_sha = e_sha i\<rparr>)
         (filter (\<lambda>i. e_type i = ''blob'') (filter (\<lambda>i. \<not> prefix folderPath (e_path i)) treeData))"

lemma delete_stage_Inr:
  assumes "delete_stage ident folderPath w = (Inr c, w1)"
  shows "\<exists>headSha treeData regNode reg.
      head w = Some headSha \<and> listing w headSha = Some treeData
    \<and> find (\<lambda>i. e_path i = ''registry.json'') (filter (\<lambda>i. \<not> prefix folderPath (e_path i)) treeData)
        = Some regNode
    \<and> lookup w (e_sha regNode) = Some (Blob (RegistryDoc reg))
    \<and> objects w1 = objects w @
        [Blob (RegistryDoc (filter (\<lambda>a. a_id a \<noteq> ident) reg)),
         Tree (final_tree folderPath (length (objects w)) treeData),
         Commit (''Scrub: '' @ ident) (length (objects w) + 1) [headSha]]
    \<and> c = length (objects w) + 2"
proof -
  from assms obtain w0 headSha w00 w2 w3 treeData w4 where
    e1: "emit (''Purging entry: '' @ ident) Warning w = (Inr (), w0)"
    and r1: "request GetRef srv_get_ref w0 = (Inr headSha, w00)"
    and e2: "emit ''Filtering repository tree...'' Info w00 = (Inr (), w2)"
    and r2: "request GetTree (srv_get_tree headSha) w2 = (Inr treeData, w3)"
    and e3: "emit ''Patching registry index...'' Info w3 = (Inr (), w4)"
    and rest: "(case find (\<lambda>i. e_path i = ''registry.json'')
                      (filter (\<lambda>i. \<not> prefix folderPath (e_path i)) treeData) of
        None \<Rightarrow> throw TypeError
      | Some regNode \<Rightarrow>
     await (request GetBlob (srv_get_blob (e_sha regNode))) (\<lambda>regBlob.
     await (decode_registry regBlob) (\<lambda>registry.
     await (request PostBlob (srv_post_blob (RegistryDoc (filter (\<lambda>a. a_id a \<noteq> ident) registry)))) (\<lambda>newReg.
     await (emit ''Committing physical scrub...'' Process) (\<lambda>_.
     await (request PostTree (srv_post_tree None (final_tree folderPath newReg treeData))) (\<lambda>newTree.
     request PostCommit (srv_post_commit (''Scrub: '' @ ident) newTree [headSha]))))))) w4 = (Inr c, w1)"
    unfolding delete_stage_def Let_def await_Inr final_tree_def by auto
  from rest obtain regNode where
    f: "find (\<lambda>i. e_path i = ''registry.json'')
          (filter (\<lambda>i. \<not> prefix folderPath (e_path i)) treeData) = Some regNode"
    by (cases "find (\<lambda>i. e_path i = ''registry.json'')
          (filter (\<lambda>i. \<not> prefix folderPath (e_path i)) treeData)") (auto simp: throw_def)
  from rest f obtain regBlob w5 reg w6 newReg w7 w8 newTree w9 where
    r3: "request GetBlob (srv_get_blob (e_sha regNode)) w4 = (Inr regBlob, w5)"
    and d: "decode_registry regBlob w5 = (Inr reg, w6)"
    and r4: "request PostBlob (srv_post_blob (RegistryDoc (filter (\<lambda>a. a_id a \<noteq> ident) reg))) w6
              = (Inr newReg, w7)"
    and e4: "emit ''Committing physical scrub...'' Process w7 = (Inr (), w8)"
    and r5: "request PostTree (srv_post_tree None (final_tree folderPath newReg treeData)) w8
              = (Inr newTree, w9)"
    and r6: "request PostCommit (srv_post_commit (''Scrub: '' @ ident) newTree [headSha]) w9 = (Inr c, w1)"
    by (auto simp: await_Inr)
  have o0: "objects w0 = objects w" "head w0 = head w"
    using e1 by (auto simp: emit_def emit_log_def)
  have o00: "objects w00 = objects w" "head w = Some headSha"
    using get_ref_objects [OF r1] o0 by simp_all
  have o2: "objects w2 = objects w" using e2 o00 by (auto simp: emit_def emit_log_def)
  have o3: "objects w3 = objects w" "listing w headSha = Some treeData"
    using get_tree_Inr [OF r2] o2 listing_cong [OF o2] by simp_all
  have o4: "objects w4 = objects w" using e3 o3 by (auto simp: emit_def emit_log_def)
  have o5: "objects w5 = objects w" "lookup w (e_sha regNode) = Some (Blob regBlob)"
    using get_blob_Inr [OF r3] o4 lookup_cong [OF o4] by simp_all
  have o6: "regBlob = RegistryDoc reg" "objects w6 = objects w"
    using decode_registry_Inr [OF d] o5 by simp_all
  have o7: "newReg = length (objects w)"
      "objects w7 = objects w @ [Blob (RegistryDoc (filter (\<lambda>a. a_id a \<noteq> ident) reg))]"
    using post_blob_objects [OF r4] o6 by simp_all
  have o8: "objects w8 = objects w7" using e4 by (auto simp: emit_def emit_log_def)
  have o9: "newTree = length (objects w) + 1"
      "objects w9 = objects w7 @ [Tree (final_tree folderPath newReg treeData)]"
    using post_tree_None_objects [OF r5] o8 o7 by simp_all
  have o10: "c = length (objects w) + 2"
      "objects w1 = objects w9 @ [Commit (''Scrub: '' @ ident) newTree [headSha]]"
    using post_commit_objects [OF r6] o9 o7 by simp_all
  show ?thesis
    using o00(2) o3(2) f o5(2) o6(1) o7 o9 o10 by simp
qed

lemma delete_publish_Inr:
  "delete_publish c w = (Inr ok, w') \<Longrightarrow> head w' = Some c \<and> objects w' = objects w"
  by (auto simp: delete_publish_def await_Inr emit_def emit_log_def ret_def dest!: patch_ref_Inr)

lemma dirs_of_prefix: "d \<in> set (dirs_of p) \<Longrightarrow> prefix d p"
  by (auto simp: dirs_of_def take_is_prefix)

lemma find_append:
  "find P (xs @ ys) = (case find P xs of None \<Rightarrow> find P ys | Some x \<Rightarrow> Some x)"
  by (induction xs) auto

lemma find_exists: "x \<in> set xs \<Longrightarrow> P x \<Longrightarrow> \<exists>y. find P xs = Some y \<and> y \<in> set xs \<and> P y"
  by (induction xs) auto


lemma find_SomeD: "find P xs = Some x \<Longrightarrow> x \<in> set xs \<and> P x"
  by (induction xs) (auto split: if_splits)

lemma tree_of_Tree:
  "tree_of w s = Some (t, es) \<Longrightarrow> lookup w t = Some (Tree es)"
  by (auto simp: tree_of_def split: option.splits obj.splits)

lemma well_formed_Tree:
  "well_formed w \<Longrightarrow> lookup w t = Some (Tree es) \<Longrightarrow> e \<in> set es \<Longrightarrow> e_type e = ''blob''"
proof -
  assume wf: "well_formed w" and l: "lookup w t = Some (Tree es)" and e: "e \<in> set es"
  from l have "t < length (objects w)" "objects w ! t = Tree es"
    by (auto simp: lookup_def split: if_splits)
  then have "Tree es \<in> set (objects w)" by (metis nth_mem)
  with wf have "list_all (\<lambda>e. e_type e = ''blob'') es"
    by (auto simp: well_formed_def list_all_iff)
  with e show ?thesis by (simp add: list_all_iff)
qed

text \<open>C7. After a successful delete(id, folderPath) on a well-formed store, the tree
  listed from the new head of the branch has no entry whose path starts with folderPath
  (no file and no directory), and the registry.json found at the new head is a registry
  with no entry of that id.\<close>
theorem C7_delete_unreachable:
  assumes "well_formed w" "delete_asset ident folderPath w = (Inr ok, w')"
  shows "\<exists>c l reg. head w' = Some c \<and> listing w' c = Some l
           \<and> (\<forall>e \<in> set l. \<not> prefix folderPath (e_path e))
           \<and> srv_get_contents ''registry.json'' w' = (Inr (RegistryDoc reg), w')
           \<and> (\<forall>a \<in> set reg. a_id a \<noteq> ident)"
proof -
  from assms(2) obtain c w1 where
    st: "delete_stage ident folderPath w = (Inr c, w1)" and pb: "delete_publish c w1 = (Inr ok, w')"
    by (auto simp: delete_asset_def await_Inr)
  from delete_stage_Inr [OF st] obtain headSha treeData regNode reg where
    hd: "head w = Some headSha" and ls: "listing w headSha = Some treeData"
    and fd: "find (\<lambda>i. e_path i = ''registry.json'')
               (filter (\<lambda>i. \<not> prefix folderPath (e_path i)) treeData) = Some regNode"
    and rb: "lookup w (e_sha regNode) = Some (Blob (RegistryDoc reg))"
    and ob: "objects w1 = objects w @
        [Blob (RegistryDoc (filter (\<lambda>a. a_id a \<noteq> ident) reg)),
         Tree (final_tree folderPath (length (objects w)) treeData),
         Commit (''Scrub: '' @ ident) (length (objects w) + 1) [headSha]]"
    and c: "c = length (objects w) + 2"
    by blast
  let ?n = "length (objects w)"
  let ?ft = "final_tree folderPath ?n treeData"
  let ?reg = "filter (\<lambda>a. a_id a \<noteq> ident) reg"
  from delete_publish_Inr [OF pb] have hw': "head w' = Some c" and ow': "objects w' = objects w1"
    by simp_all
  have lc: "lookup w' c = Some (Commit (''Scrub: '' @ ident) (?n + 1) [headSha])"
    and lt: "lookup w' (?n + 1) = Some (Tree ?ft)"
    and lr: "lookup w' ?n = Some (Blob (RegistryDoc ?reg))"
    by (simp_all add: lookup_def ow' ob c nth_append)
  let ?dirs = "map (\<lambda>d. \<lparr>e_path = d, e_mode = ''040000'', e_type = ''tree'', e_sha = ?n + 1\<rparr>)
                 (remdups (concat (map (\<lambda>e. dirs_of (e_path e)) ?ft)))"
  have lw': "listing w' c = Some (?ft @ ?dirs)"
    using lc lt by (simp add: listing_def tree_of_def)
  have ft_paths: "\<not> prefix folderPath (e_path e)" if "e \<in> set ?ft" for e
    using that by (auto simp: final_tree_def split: if_splits)
  have dir_paths: "\<not> prefix folderPath (e_path e)" if "e \<in> set ?dirs" for e
  proof -
    from that obtain e0 where e0: "e0 \<in> set ?ft" "e_path e \<in> set (dirs_of (e_path e0))"
      by auto
    then have "prefix (e_path e) (e_path e0)" by (blast intro: dirs_of_prefix)
    moreover have "\<not> prefix folderPath (e_path e0)" using e0(1) by (rule ft_paths)
    ultimately show ?thesis by (meson prefix_order.order_trans)
  qed
  have paths: "\<forall>e \<in> set (?ft @ ?dirs). \<not> prefix folderPath (e_path e)"
    using ft_paths dir_paths by auto
  \<comment> \<open>the registry node is a blob entry of the old tree\<close>
  from fd have rn: "regNode \<in> set treeData" "\<not> prefix folderPath (e_path regNode)"
      "e_path regNode = ''registry.json''"
    by (auto dest!: find_SomeD)
  from ls obtain t es where tr: "tree_of w headSha = Some (t, es)"
    and td: "treeData = es @ map (\<lambda>d. \<lparr>e_path = d, e_mode = ''040000'', e_type = ''tree'', e_sha = t\<rparr>)
                 (remdups (concat (map (\<lambda>e. dirs_of (e_path e)) es)))"
    by (auto simp: listing_def split: option.splits)
  have tt: "lookup w t = Some (Tree es)" using tr by (rule tree_of_Tree)
  have "regNode \<in> set es"
  proof (rule ccontr)
    assume "regNode \<notin> set es"
    with rn(1) td have "e_sha regNode = t" by auto
    with rb tt show False by simp
  qed
  then have rt: "e_type regNode = ''blob''" using assms(1) tt by (blast intro: well_formed_Tree)
  let ?P = "\<lambda>e. e_path e = ''registry.json'' \<and> e_type e = ''blob''"
  have "\<lparr>e_path = e_path regNode, e_mode = e_mode regNode, e_type = e_type regNode, e_sha = ?n\<rparr> \<in> set ?ft"
    using rn rt by (auto simp: final_tree_def image_iff intro!: bexI [of _ regNode])
  then obtain y where y: "find ?P ?ft = Some y" "y \<in> set ?ft" "?P y"
    using rn(3) rt find_exists [of _ ?ft ?P] by fastforce
  have ys: "e_sha y = ?n" using y(2,3) by (auto simp: final_tree_def split: if_splits)
  have "find ?P (?ft @ ?dirs) = Some y" using y(1) by (simp add: find_append)
  then have gc: "srv_get_contents ''registry.json'' w' = (Inr (RegistryDoc ?reg), w')"
    using hw' lw' ys lr by (simp add: srv_get_contents_def srv_get_blob_def)
  have "\<forall>a \<in> set ?reg. a_id a \<noteq> ident" by simp
  with hw' lw' paths gc show ?thesis by blast
qed


text \<open>A repository that holds one asset: its chunk, its manifest and the registry.\<close>
definition manifest0 :: cdn_manifest where
  "manifest0 = \<lparr>m_id = ''a0'', m_fileName = ''old.bin'', m_uniqueId = ''a0'', m_totalChunks = 1,
                m_chunkSize = 5242880, m_totalSize = 4, m_mimeType = ''application/octet-stream'',
                m_pathPrefix = ''uploads/2026_01/a0_old.bin'', m_uploadedAt = ''2026-01-24T12:00:00Z'',
                m_optimized = True\<rparr>"

definition world2 :: world where
  "world2 = \<lparr>objects = [Blob (RegistryDoc [asset0]), Blob (Raw [1, 2, 3, 4]), Blob (ManifestDoc manifest0),
                         Tree [blob_item ''registry.json'' 0,
                               blob_item ''uploads/2026_01/a0_old.bin/chunk_1'' 1,
                               blob_item ''uploads/2026_01/a0_old.bin/manifest.json'' 2],
                         Commit ''init'' 3 []],
             head = Some 4, history = [], fails = (\<lambda>k. False), updates = []\<rparr>"

lemma dirs_chunk:
  "dirs_of ''uploads/2026_01/a0_old.bin/chunk_1''
     = [''uploads'', ''uploads/2026_01'', ''uploads/2026_01/a0_old.bin'']"
  by code_simp

lemma dirs_manifest:
  "dirs_of ''uploads/2026_01/a0_old.bin/manifest.json''
     = [''uploads'', ''uploads/2026_01'', ''uploads/2026_01/a0_old.bin'']"
  by code_simp

lemma well_formed_world2: "well_formed world2"
  by (simp add: well_formed_def world2_def blob_item_def)

lemma delete_run2:
  "fst (delete_asset ''a0'' ''uploads/2026_01/a0_old.bin'' world2) = Inr True"
  by (simp add: run_defs delete_run_defs world2_def dirs_chunk dirs_manifest asset0_def)

theorem C7_delete_unreachable_witness:
  "fst (delete_asset ''a0'' ''uploads/2026_01/a0_old.bin'' world2) = Inr True
   \<and> (\<exists>c l reg. head (snd (delete_asset ''a0'' ''uploads/2026_01/a0_old.bin'' world2)) = Some c
         \<and> listing (snd (delete_asset ''a0'' ''uploads/2026_01/a0_old.bin'' world2)) c = Some l
         \<and> (\<forall>e \<in> set l. \<not> prefix ''uploads/2026_01/a0_old.bin'' (e_path e))
         \<and> srv_get_contents ''registry.json'' (snd (delete_asset ''a0'' ''uploads/2026_01/a0_old.bin'' world2))
             = (Inr (RegistryDoc reg), snd (delete_asset ''a0'' ''uploads/2026_01/a0_old.bin'' world2))
         \<and> (\<forall>a \<in> set reg. a_id a \<noteq> ''a0''))"
proof -
  let ?d = "delete_asset ''a0'' ''uploads/2026_01/a0_old.bin'' world2"
  have "?d = (Inr True, snd ?d)" using delete_run2 by (metis prod.collapse)
  with well_formed_world2 have "\<exists>c l reg. head (snd ?d) = Some c \<and> listing (snd ?d) c = Some l
           \<and> (\<forall>e \<in> set l. \<not> prefix ''uploads/2026_01/a0_old.bin'' (e_path e))
           \<and> srv_get_contents ''registry.json'' (snd ?d) = (Inr (RegistryDoc reg), snd ?d)
           \<and> (\<forall>a \<in> set reg. a_id a \<noteq> ''a0'')"
    by (rule C7_delete_unreachable)
  with delete_run2 show ?thesis by blast
qed


section \<open>A pipeline on a store that answers every request\<close>







lemma await_ok: "m w = (Inr x, w1) \<Longrightarrow> await m f w = f x w1"
  by (simp add: await_def)

























section \<open>The reorder buffer of fetch\<close>










































lemma dec_digits: "dec 1 = ''1''" "dec 2 = ''2''" "dec 3 = ''3''" "dec (Suc 0) = ''1''"
  by code_simp+

lemma sources_cfg0:
  "sources cfg0 ''p'' = (''https://cdn.jsdelivr.net/gh/o/r@main/p'', ''https://raw.githubusercontent.com/o/r/main/p'')"
  by (simp add: sources_def cfg0_def)



text \<open>An asset of one chunk, the one-byte buffer [9], on the first mirror.\<close>
definition manifest1 :: cdn_manifest where
  "manifest1 = \<lparr>m_id = ''a1'', m_fileName = ''one.bin'', m_uniqueId = ''a1'', m_totalChunks = 1,
                m_chunkSize = 5242880, m_totalSize = 1, m_mimeType = ''application/octet-stream'',
                m_pathPrefix = ''p'', m_uploadedAt = ''2026-01-24T12:00:00Z'', m_optimized = True\<rparr>"


text \<open>The same asset when both mirrors answer 404 Not Found for its chunk.\<close>
definition net404 :: net where
  "net404 = (\<lambda>url. if url = ''https://cdn.jsdelivr.net/gh/o/r@main/p/manifest.json''
                    then Some \<lparr>r_ok = True, r_json = Some manifest1, r_arrayBuffer = []\<rparr>
                    else Some \<lparr>r_ok = False, r_json = None,
                               r_arrayBuffer = [78, 111, 116, 32, 70, 111, 117, 110, 100]\<rparr>)"

lemmas fetch_defs =
  fetch_def getManifest_def net_fetch_def try_catch_def await_def ret_def throw_def emit_def
  emit_log_def sources_cfg0



lemma fetch_net404: "fst (fetch cfg0 net404 ''p'' world0) = Inr (start_state, manifest1)"
  by (simp add: fetch_defs net404_def)



text \<open>C3, at the failing input: both mirrors answer 404 for chunk 1. get hands the second
  mirror's response on without looking at r.ok, download enqueues the body of the error
  response as chunk 1, and the stream closes as if the asset had been delivered.\<close>
theorem C3_error_body_delivered:
  "fst (fetch cfg0 net404 ''p'' world0) = Inr (start_state, manifest1)
   \<and> m_totalChunks manifest1 = 1
   \<and> run net404 (sources cfg0 ''p'') 1 [Launch, Settle 1, Finish] start_state
       = Some \<lparr>chunkMap = [], nxt = 2, workers = [], i_loop = 2,
               queue = [[78, 111, 116, 32, 70, 111, 117, 110, 100]], status = Closed\<rparr>"
proof (intro conjI)
  show "fst (fetch cfg0 net404 ''p'' world0) = Inr (start_state, manifest1)"
    by (rule fetch_net404)
  show "m_totalChunks manifest1 = 1" by (simp add: manifest1_def)
  show "run net404 (sources cfg0 ''p'') 1 [Launch, Settle 1, Finish] start_state
       = Some \<lparr>chunkMap = [], nxt = 2, workers = [], i_loop = 2,
               queue = [[78, 111, 116, 32, 70, 111, 117, 110, 100]], status = Closed\<rparr>"
    by (simp add: sources_cfg0 start_state_def launch_def settle_def finish_def get_def net404_def
          dec_digits drain.simps)
qed



end
